theory Spec2Isabelle
  imports Main "HOL-Library.Word" "HOL-Library.Signed_Division" "HOL-Library.Sublist"
begin

section \<open>ASCII-OS: a shallow embedding of \<^verbatim>\<open>src/main.c\<close>\<close>

text \<open>
  The program is a single-threaded UEFI application. Its C objects are embedded as follows.
  \<^item> \<^verbatim>\<open>CHAR16\<close> is a 16-bit word; a C string is the list of its characters before the
    terminating 0.
  \<^item> \<^verbatim>\<open>INTN\<close> and \<^verbatim>\<open>EFI_STATUS\<close> are 32-bit words (the source's header calls the program a
    32-bit UEFI application); arithmetic on them wraps around.
  \<^item> The \<^verbatim>\<open>UINTN\<close> variables that count lines and columns are natural numbers: the code keeps
    them at most 100 and 255, so that the increments never wrap.
  \<^item> A \<^verbatim>\<open>CHAR16[MAX_LINES][MAX_LINE_LENGTH]\<close> array is a store from (line, column) to
    \<^verbatim>\<open>CHAR16\<close>, updated cell by cell as the code does.
\<close>

type_synonym CHAR16 = "16 word"
type_synonym INTN = "32 word"
type_synonym EFI_STATUS = "32 word"

text \<open>A wide string literal \<^verbatim>\<open>L"..."\<close> of ASCII characters, without its terminator.\<close>

definition L :: "string \<Rightarrow> CHAR16 list" where
  "L s = map of_char s"

subsection \<open>The expression evaluator (lines 44-74)\<close>

text \<open>
  C's \<^verbatim>\<open>/\<close> on \<^verbatim>\<open>INTN\<close> truncates towards zero; the result is stored back into 32 bits.
\<close>

definition intn_div :: "INTN \<Rightarrow> INTN \<Rightarrow> INTN" where
  "intn_div a b = word_of_int (sint a sdiv sint b)"

text \<open>
  The four-way \<^verbatim>\<open>if\<close> chain that applies the pending operator (lines 56-59 and 68-71).
  A pending \<^verbatim>\<open>/\<close> with operand 0 falls through every branch.
\<close>

definition apply_op :: "CHAR16 \<Rightarrow> INTN \<Rightarrow> INTN \<Rightarrow> INTN" where
  "apply_op op result current_num =
     (if op = of_char CHR ''+'' then result + current_num
      else if op = of_char CHR ''-'' then result - current_num
      else if op = of_char CHR ''*'' then result * current_num
      else if op = of_char CHR ''/'' \<and> current_num \<noteq> 0 then intn_div result current_num
      else result)"

text \<open>
  The \<^verbatim>\<open>while (expr[i] != 0)\<close> loop, with the state \<^verbatim>\<open>(result, current_num, op)\<close>. The list is the
  memory from \<^verbatim>\<open>expr\<close> on; the loop stops at the first 0, or at the end of the list, where
  the terminator is.
\<close>

fun eval_loop :: "CHAR16 list \<Rightarrow> INTN \<times> INTN \<times> CHAR16 \<Rightarrow> INTN \<times> INTN \<times> CHAR16" where
  "eval_loop [] s = s"
| "eval_loop (c # cs) (result, current_num, op) =
     (if c = 0 then (result, current_num, op)
      else if of_char CHR ''0'' \<le> c \<and> c \<le> of_char CHR ''9'' then
        eval_loop cs (result, current_num * 10 + (ucast c - ucast (of_char CHR ''0'' :: CHAR16)), op)
      else if c = of_char CHR ''+'' \<or> c = of_char CHR ''-'' \<or>
              c = of_char CHR ''*'' \<or> c = of_char CHR ''/'' then
        eval_loop cs (apply_op op result current_num, 0, c)
      else eval_loop cs (result, current_num, op))"

definition evaluate_expression :: "CHAR16 list \<Rightarrow> INTN" where
  "evaluate_expression expr =
     (case eval_loop expr (0, 0, of_char CHR ''+'') of
        (result, current_num, op) \<Rightarrow> apply_op op result current_num)"

subsection \<open>Constants of the firmware interface\<close>

text \<open>
  The headers \<^verbatim>\<open>efi.h\<close> and \<^verbatim>\<open>efilib.h\<close> are not part of the repository. The constants the
  program takes from them have the values the UEFI specification fixes: scan codes and
  control characters of the console input protocol, text attributes
  (\<^verbatim>\<open>EFI_TEXT_ATTR(fg, bg) = fg | bg << 4\<close>), and status codes, where an error has the highest
  bit set.
\<close>

definition SCAN_UP :: "16 word" where "SCAN_UP = 0x01"
definition SCAN_DOWN :: "16 word" where "SCAN_DOWN = 0x02"
definition SCAN_RIGHT :: "16 word" where "SCAN_RIGHT = 0x03"
definition SCAN_LEFT :: "16 word" where "SCAN_LEFT = 0x04"
definition SCAN_F2 :: "16 word" where "SCAN_F2 = 0x0C"
definition SCAN_F3 :: "16 word" where "SCAN_F3 = 0x0D"
definition SCAN_ESC :: "16 word" where "SCAN_ESC = 0x17"
definition CHAR_BACKSPACE :: CHAR16 where "CHAR_BACKSPACE = 0x08"
definition CHAR_CARRIAGE_RETURN :: CHAR16 where "CHAR_CARRIAGE_RETURN = 0x0D"

definition COLOR_NORMAL :: nat where "COLOR_NORMAL = 0x07"
definition COLOR_TOPBAR :: nat where "COLOR_TOPBAR = 0x70"
definition COLOR_HIGHLIGHT :: nat where "COLOR_HIGHLIGHT = 0x0E"
definition COLOR_WINDOW :: nat where "COLOR_WINDOW = 0x1F"

definition EFI_SUCCESS :: EFI_STATUS where "EFI_SUCCESS = 0"
definition EFI_NOT_FOUND :: EFI_STATUS where "EFI_NOT_FOUND = 0x8000000E"

definition EFI_ERROR :: "EFI_STATUS \<Rightarrow> bool" where
  "EFI_ERROR status = (sint status < 0)"

definition SCREEN_WIDTH :: nat where "SCREEN_WIDTH = 80"
definition SCREEN_HEIGHT :: nat where "SCREEN_HEIGHT = 25"
definition MAX_LINES :: nat where "MAX_LINES = 100"
definition MAX_LINE_LENGTH :: nat where "MAX_LINE_LENGTH = 256"

record EFI_INPUT_KEY =
  ScanCode :: "16 word"
  UnicodeChar :: CHAR16

record EFI_TIME =
  Hour :: "8 word"
  Minute :: "8 word"
  Second :: "8 word"

subsection \<open>Text arrays and the strings in them\<close>

type_synonym line_array = "nat \<Rightarrow> CHAR16"
type_synonym text_array = "nat \<Rightarrow> line_array"

text \<open>The assignment \<^verbatim>\<open>buffer[line][col] = v\<close>.\<close>

definition poke :: "text_array \<Rightarrow> nat \<Rightarrow> nat \<Rightarrow> CHAR16 \<Rightarrow> text_array" where
  "poke buffer line col v = buffer(line := (buffer line)(col := v))"

text \<open>
  The string a row holds, as \<^verbatim>\<open>StrLen\<close> and \<^verbatim>\<open>OutputString\<close> read it: the characters before
  the first 0. The read is cut at the end of the row; a row with no 0 in it would make the
  C code read on into the next row.
\<close>

definition wstr :: "line_array \<Rightarrow> CHAR16 list" where
  "wstr row = takeWhile (\<lambda>c. c \<noteq> 0) (map row [0..<MAX_LINE_LENGTH])"

definition StrLen :: "line_array \<Rightarrow> nat" where
  "StrLen row = length (wstr row)"

text \<open>\<^verbatim>\<open>StrCpy(row, s)\<close>: the characters of \<open>s\<close> and the terminator.\<close>

definition StrCpy :: "line_array \<Rightarrow> CHAR16 list \<Rightarrow> line_array" where
  "StrCpy row s = (\<lambda>j. if j < length s then s ! j else if j = length s then 0 else row j)"

subsection \<open>The firmware: file system and clock\<close>

text \<open>
  What the boot services answer is a record: the status of each call the program makes,
  the number of file-system handles, the files of the first volume and the clock. A file
  is the sequence of its 16-bit units (the program reads and writes whole \<^verbatim>\<open>CHAR16\<close>s only).
\<close>

record firmware =
  LocateHandleBuffer_status :: EFI_STATUS
  handles_count :: nat
  HandleProtocol_status :: EFI_STATUS
  OpenVolume_status :: EFI_STATUS
  Open_status :: EFI_STATUS
  AllocatePool_status :: EFI_STATUS
  Read_status :: EFI_STATUS
  Write_status :: EFI_STATUS
  files :: "CHAR16 list \<rightharpoonup> CHAR16 list"
  time :: EFI_TIME

text \<open>
  \<^verbatim>\<open>file->Write\<close> at a position of an open file: the units from the position on are
  overwritten and the file grows where the data goes past its end; a failing write stores
  nothing. The program ignores the status.
\<close>

definition file_write :: "EFI_STATUS \<Rightarrow> CHAR16 list \<Rightarrow> CHAR16 list \<times> nat \<Rightarrow> CHAR16 list \<times> nat" where
  "file_write status chunk f =
     (case f of (data, pos) \<Rightarrow>
        if EFI_ERROR status then (data, pos)
        else (take pos data @ chunk @ drop (pos + length chunk) data, pos + length chunk))"

text \<open>The body of the loop of lines 218-226: the first \<^verbatim>\<open>StrLen(buffer[i])\<close> units of the row, then
  \<^verbatim>\<open>L"\r\n"\<close> (4 bytes).\<close>

definition write_line ::
  "EFI_STATUS \<Rightarrow> text_array \<Rightarrow> nat \<Rightarrow> CHAR16 list \<times> nat \<Rightarrow> CHAR16 list \<times> nat" where
  "write_line status buffer i f =
     file_write status [0x0D, 0x0A]
       (file_write status (map (buffer i) [0..<StrLen (buffer i)]) f)"

text \<open>
  \<^verbatim>\<open>save_to_file\<close> (lines 177-232). The file is opened with
  \<^verbatim>\<open>EFI_FILE_MODE_READ | EFI_FILE_MODE_WRITE | EFI_FILE_MODE_CREATE\<close>: an existing file keeps
  its contents and is written from position 0, a missing one is created empty.
\<close>

definition save_to_file ::
  "CHAR16 list \<Rightarrow> text_array \<Rightarrow> nat \<Rightarrow> firmware \<Rightarrow> EFI_STATUS \<times> firmware" where
  "save_to_file filename buffer num_lines fw =
     (if EFI_ERROR (LocateHandleBuffer_status fw) \<or> handles_count fw = 0 then (EFI_NOT_FOUND, fw)
      else if EFI_ERROR (HandleProtocol_status fw) then (HandleProtocol_status fw, fw)
      else if EFI_ERROR (OpenVolume_status fw) then (OpenVolume_status fw, fw)
      else if EFI_ERROR (Open_status fw) then (Open_status fw, fw)
      else
        let file = (case files fw filename of None \<Rightarrow> [] | Some data \<Rightarrow> data);
            written = fold (write_line (Write_status fw) buffer) [0..<num_lines] (file, 0)
        in (EFI_SUCCESS, fw\<lparr>files := (files fw)(filename \<mapsto> fst written)\<rparr>))"

text \<open>
  The parsing loop of lines 290-298 over the units read, with the state
  \<^verbatim>\<open>(buffer, line, col)\<close>; it stops when \<^verbatim>\<open>line\<close> reaches \<^verbatim>\<open>MAX_LINES\<close>.
\<close>

fun parse_lines :: "CHAR16 list \<Rightarrow> text_array \<times> nat \<times> nat \<Rightarrow> text_array \<times> nat \<times> nat" where
  "parse_lines [] s = s"
| "parse_lines (c # cs) (buffer, line, col) =
     (if line < MAX_LINES then
        (if c = 0x0D \<or> c = 0x0A then
           parse_lines cs (poke buffer line col 0, (if col > 0 then line + 1 else line), 0)
         else if col < MAX_LINE_LENGTH - 1 then
           parse_lines cs (poke buffer line col c, line, col + 1)
         else parse_lines cs (buffer, line, col))
      else (buffer, line, col))"

text \<open>Lines 300-305: a last line without a line end is closed and counted.\<close>

definition finish_lines :: "text_array \<times> nat \<times> nat \<Rightarrow> text_array \<times> nat" where
  "finish_lines s =
     (case s of (buffer, line, col) \<Rightarrow>
        if col > 0 then (poke buffer line col 0, line + 1) else (buffer, line))"

text \<open>
  \<^verbatim>\<open>load_from_file\<close> (lines 235-309) returns the status, the caller's array and the caller's
  \<^verbatim>\<open>*num_lines\<close>, which line 246 sets to 0 before anything else. \<^verbatim>\<open>Read\<close> is asked for 8192
  bytes, 4096 units, and \<^verbatim>\<open>file_size / sizeof(CHAR16)\<close> is the number of units it gave.
\<close>

definition load_from_file ::
  "CHAR16 list \<Rightarrow> text_array \<Rightarrow> firmware \<Rightarrow> EFI_STATUS \<times> text_array \<times> nat" where
  "load_from_file filename buffer fw =
     (if EFI_ERROR (LocateHandleBuffer_status fw) \<or> handles_count fw = 0 then (EFI_NOT_FOUND, buffer, 0)
      else if EFI_ERROR (HandleProtocol_status fw) then (HandleProtocol_status fw, buffer, 0)
      else if EFI_ERROR (OpenVolume_status fw) then (OpenVolume_status fw, buffer, 0)
      else if EFI_ERROR (Open_status fw) then (Open_status fw, buffer, 0)
      else
        (case files fw filename of
           None \<Rightarrow> (EFI_NOT_FOUND, buffer, 0)
         | Some data \<Rightarrow>
             if EFI_ERROR (AllocatePool_status fw) then (AllocatePool_status fw, buffer, 0)
             else if EFI_ERROR (Read_status fw) then (Read_status fw, buffer, 0)
             else
               let file_buffer = take (8192 div 2) data;
                   parsed = finish_lines (parse_lines file_buffer (buffer, 0, 0))
               in (EFI_SUCCESS, fst parsed, snd parsed)))"

subsection \<open>The console\<close>

text \<open>
  The output protocol is modelled by the sequence of calls made to it, oldest first.
\<close>

datatype con_op =
  ClearScreen
| SetAttribute nat
| SetCursorPosition nat nat
| OutputString "CHAR16 list"

type_synonym console = "con_op list"

definition clear_screen :: "console \<Rightarrow> console" where
  "clear_screen con = con @ [ClearScreen, SetAttribute COLOR_NORMAL]"

definition set_cursor :: "nat \<Rightarrow> nat \<Rightarrow> console \<Rightarrow> console" where
  "set_cursor col row con = con @ [SetCursorPosition col row]"

definition output_string :: "CHAR16 list \<Rightarrow> console \<Rightarrow> console" where
  "output_string s con = con @ [OutputString s]"

text \<open>
  \<^verbatim>\<open>SPrint\<close> with \<^verbatim>\<open>%d\<close> and \<^verbatim>\<open>%02d\<close>: decimal digits, padded with 0 to two places for the
  clock.
\<close>

fun decimal :: "nat \<Rightarrow> CHAR16 list" where
  "decimal n = (if n < 10 then [of_char CHR ''0'' + of_nat n]
                else decimal (n div 10) @ [of_char CHR ''0'' + of_nat (n mod 10)])"

definition decimal02 :: "nat \<Rightarrow> CHAR16 list" where
  "decimal02 n = (if n < 10 then of_char CHR ''0'' # decimal n else decimal n)"

definition draw_topbar :: "EFI_TIME \<Rightarrow> console \<Rightarrow> console" where
  "draw_topbar t con =
     con @ [SetAttribute COLOR_TOPBAR, SetCursorPosition 0 0]
         @ replicate SCREEN_WIDTH (OutputString (L '' ''))
         @ [SetCursorPosition 1 0,
            OutputString (L ''ASCII-OS  '' @ [0x2022] @ L ''  Activities  '' @ [0x2022]
                          @ L ''  Files  '' @ [0x2022] @ L ''  Apps''),
            SetCursorPosition 60 0,
            OutputString (decimal02 (unat (Hour t)) @ L '':'' @ decimal02 (unat (Minute t))
                          @ L '':'' @ decimal02 (unat (Second t))),
            SetAttribute COLOR_NORMAL]"

definition draw_dock :: "console \<Rightarrow> console" where
  "draw_dock con =
     con @ [SetCursorPosition 2 23, SetAttribute COLOR_HIGHLIGHT,
            OutputString (L ''[N]otepad  [C]alc  [E]ditor  [D]onut  [Q]uit''),
            SetAttribute COLOR_NORMAL]"

definition draw_window ::
  "nat \<Rightarrow> nat \<Rightarrow> nat \<Rightarrow> nat \<Rightarrow> CHAR16 list option \<Rightarrow> console \<Rightarrow> console" where
  "draw_window col row width height title con =
     con @ [SetAttribute COLOR_WINDOW, SetCursorPosition col row, OutputString [0x256D]]
         @ replicate (width - 2) (OutputString [0x2500])
         @ [OutputString [0x256E]]
         @ (case title of
              None \<Rightarrow> []
            | Some t \<Rightarrow> [SetCursorPosition (col + (width - length t) div 2) row, OutputString t])
         @ concat (map (\<lambda>i. [SetCursorPosition col (row + i), OutputString [0x2502],
                            SetCursorPosition (col + width - 1) (row + i), OutputString [0x2502]])
                     [1..<height - 1])
         @ [SetCursorPosition col (row + height - 1), OutputString [0x2570]]
         @ replicate (width - 2) (OutputString [0x2500])
         @ [OutputString [0x256F], SetAttribute COLOR_NORMAL]"

subsection \<open>The line buffer and its key handler\<close>

text \<open>
  The notepad keeps its text in the globals \<^verbatim>\<open>notepad_buffer\<close>, \<^verbatim>\<open>notepad_lines\<close>,
  \<^verbatim>\<open>notepad_cursor_line\<close> and \<^verbatim>\<open>notepad_cursor_col\<close> (lines 38-41), the editor in the locals
  \<^verbatim>\<open>editor_buffer\<close>, \<^verbatim>\<open>editor_lines\<close>, \<^verbatim>\<open>editor_cursor_line\<close> and \<^verbatim>\<open>editor_cursor_col\<close>
  (lines 436-439). Both are a record of the same four fields.
\<close>

record textbuf =
  buffer :: text_array
  lines :: nat
  cursor_line :: nat
  cursor_col :: nat

text \<open>
  The branches on \<^verbatim>\<open>key.UnicodeChar\<close>: Backspace, Enter and printable characters. The
  source has them twice, in \<^verbatim>\<open>app_notepad\<close> (lines 351-368) and in \<^verbatim>\<open>app_editor\<close> (lines
  488-505), the same text up to the names of the variables.
\<close>

definition text_key :: "CHAR16 \<Rightarrow> textbuf \<Rightarrow> textbuf" where
  "text_key ch e =
     (if ch = CHAR_BACKSPACE then
        (if cursor_col e > 0 then
           e\<lparr>buffer := poke (buffer e) (cursor_line e) (cursor_col e - 1) 0,
             cursor_col := cursor_col e - 1\<rparr>
         else e)
      else if ch = CHAR_CARRIAGE_RETURN then
        (let buffer' = poke (buffer e) (cursor_line e) (cursor_col e) 0;
             line = (if cursor_line e + 1 \<ge> MAX_LINES then MAX_LINES - 1 else cursor_line e + 1)
         in \<lparr>buffer = buffer',
             lines = (if line \<ge> lines e then line + 1 else lines e),
             cursor_line = line,
             cursor_col = 0\<rparr>)
      else if ch \<ge> 32 \<and> ch < 127 then
        (if cursor_col e < MAX_LINE_LENGTH - 1 then
           \<lparr>buffer = poke (poke (buffer e) (cursor_line e) (cursor_col e) ch)
                       (cursor_line e) (cursor_col e + 1) 0,
            lines = (if cursor_line e \<ge> lines e then cursor_line e + 1 else lines e),
            cursor_line = cursor_line e,
            cursor_col = cursor_col e + 1\<rparr>
         else e)
      else e)"

subsection \<open>The state of the program\<close>

text \<open>
  The firmware, the console, the global \<^verbatim>\<open>cursor\<close> of the main menu (x, y) and the notepad's
  globals. \<open>stack_garbage\<close> is what the automatic array \<^verbatim>\<open>editor_buffer\<close> holds when
  \<^verbatim>\<open>app_editor\<close> is entered: the code does not initialise it.
\<close>

record world =
  fw :: firmware
  con :: console
  cursor :: "nat \<times> nat"
  notepad_state :: textbuf
  stack_garbage :: text_array

definition notepad_txt :: "CHAR16 list" where
  "notepad_txt = of_char (CHR 0x5C) # L ''notepad.txt''"

definition sample_txt :: "CHAR16 list" where
  "sample_txt = of_char (CHR 0x5C) # L ''sample.txt''"

subsection \<open>The notepad (lines 312-370)\<close>

text \<open>Lines 328-336: up to 16 lines are blanked and written, then the cursor is placed.\<close>

definition notepad_show :: "textbuf \<Rightarrow> console \<Rightarrow> console" where
  "notepad_show e c =
     c @ concat (map (\<lambda>i. [SetCursorPosition 12 (4 + i), OutputString (replicate 54 (of_char CHR '' '')),
                          SetCursorPosition 12 (4 + i), OutputString (wstr (buffer e i))])
                   [0..<min 16 (lines e)])
       @ [SetCursorPosition (12 + cursor_col e) (4 + cursor_line e)]"

text \<open>Lines 340-368: one key. The flag is \<^verbatim>\<open>running\<close>.\<close>

definition notepad_key :: "EFI_INPUT_KEY \<Rightarrow> world \<Rightarrow> bool \<times> world" where
  "notepad_key key w =
     (if ScanCode key = SCAN_ESC then (False, w)
      else if ScanCode key = SCAN_F2 then
        (case save_to_file notepad_txt (buffer (notepad_state w)) (lines (notepad_state w)) (fw w) of
           (status, fw') \<Rightarrow>
             (True, w\<lparr>fw := fw',
                      con := output_string
                               (if EFI_ERROR status then L ''Save failed (filesystem unavailable)''
                                else L ''Saved to '' @ notepad_txt @ L ''            '')
                               (set_cursor 12 20 (con w))\<rparr>))
      else (True, w\<lparr>notepad_state := text_key (UnicodeChar key) (notepad_state w)\<rparr>))"

text \<open>
  The \<^verbatim>\<open>while (running)\<close> loop over the keys that arrive. The second component of the
  result is the keys left when the application has returned, and \<open>None\<close> when it is
  still waiting in \<^verbatim>\<open>read_key\<close>.
\<close>

fun notepad_loop :: "world \<Rightarrow> EFI_INPUT_KEY list \<Rightarrow> world \<times> EFI_INPUT_KEY list option" where
  "notepad_loop w [] = (w\<lparr>con := notepad_show (notepad_state w) (con w)\<rparr>, None)"
| "notepad_loop w (key # keys) =
     (case notepad_key key (w\<lparr>con := notepad_show (notepad_state w) (con w)\<rparr>) of
        (running, w') \<Rightarrow> if running then notepad_loop w' keys else (w', Some keys))"

definition app_notepad :: "world \<Rightarrow> EFI_INPUT_KEY list \<Rightarrow> world \<times> EFI_INPUT_KEY list option" where
  "app_notepad w keys =
     notepad_loop
       (w\<lparr>con := output_string (L ''Type text. F2=Save, ESC=Exit'')
                   (set_cursor 12 20
                     (draw_window 10 3 60 18 (Some (L '' Notepad ''))
                       (draw_topbar (time (fw w)) (clear_screen (con w))))),
          notepad_state := (notepad_state w)\<lparr>cursor_line := 0, cursor_col := 0\<rparr>\<rparr>)
       keys"

subsection \<open>The editor (lines 433-507)\<close>

definition editor_show :: "textbuf \<Rightarrow> console \<Rightarrow> console" where
  "editor_show e c =
     c @ concat (map (\<lambda>i. [SetCursorPosition 10 (3 + i), OutputString (replicate 60 (of_char CHR '' '')),
                          SetCursorPosition 10 (3 + i), OutputString (wstr (buffer e i))])
                   [0..<min 18 (lines e)])
       @ [SetCursorPosition (10 + cursor_col e) (3 + cursor_line e)]"

text \<open>
  Lines 472-505: one key, on the editor's locals and the rest of the state. On F3 the
  status of \<^verbatim>\<open>load_from_file\<close> is not looked at.
\<close>

definition editor_key :: "EFI_INPUT_KEY \<Rightarrow> textbuf \<times> world \<Rightarrow> bool \<times> textbuf \<times> world" where
  "editor_key key s =
     (case s of (e, w) \<Rightarrow>
        if ScanCode key = SCAN_ESC then (False, e, w)
        else if ScanCode key = SCAN_F2 then
          (case save_to_file sample_txt (buffer e) (lines e) (fw w) of
             (status, fw') \<Rightarrow>
               (True, e, w\<lparr>fw := fw',
                           con := output_string
                                    (if EFI_ERROR status then L ''Save failed (filesystem unavailable)''
                                     else L ''Saved to '' @ sample_txt @ L ''            '')
                                    (set_cursor 10 21 (con w))\<rparr>))
        else if ScanCode key = SCAN_F3 then
          (case load_from_file sample_txt (buffer e) (fw w) of
             (status, buffer', num_lines) \<Rightarrow>
               (True, \<lparr>buffer = buffer', lines = num_lines, cursor_line = 0, cursor_col = 0\<rparr>, w))
        else (True, text_key (UnicodeChar key) e, w))"

fun editor_loop ::
  "textbuf \<times> world \<Rightarrow> EFI_INPUT_KEY list \<Rightarrow> (textbuf \<times> world) \<times> EFI_INPUT_KEY list option" where
  "editor_loop (e, w) [] = ((e, w\<lparr>con := editor_show e (con w)\<rparr>), None)"
| "editor_loop (e, w) (key # keys) =
     (case editor_key key (e, w\<lparr>con := editor_show e (con w)\<rparr>) of
        (running, s') \<Rightarrow> if running then editor_loop s' keys else (s', Some keys))"

text \<open>
  Lines 436-456: the first load into the uninitialised array, and the default text when
  it fails.
\<close>

definition editor_start :: "world \<Rightarrow> textbuf" where
  "editor_start w =
     (case load_from_file sample_txt (stack_garbage w) (fw w) of
        (status, buffer', num_lines) \<Rightarrow>
          if EFI_ERROR status then
            \<lparr>buffer = (let b0 = buffer'(0 := StrCpy (buffer' 0) (L ''This is a sample file.''))
                       in b0(1 := StrCpy (b0 1) (L ''Edit this text and press F2 to save.''))),
             lines = 2, cursor_line = 0, cursor_col = 0\<rparr>
          else \<lparr>buffer = buffer', lines = num_lines, cursor_line = 0, cursor_col = 0\<rparr>)"

text \<open>The editor's locals end with the call: only the rest of the state is returned.\<close>

definition app_editor :: "world \<Rightarrow> EFI_INPUT_KEY list \<Rightarrow> world \<times> EFI_INPUT_KEY list option" where
  "app_editor w keys =
     (case editor_loop
             (editor_start w,
              w\<lparr>con := output_string (L ''F2=Save, F3=Reload, ESC=Exit'')
                          (set_cursor 10 21
                            (draw_window 8 2 64 20 (Some (L '' Editor - sample.txt ''))
                              (draw_topbar (time (fw w)) (clear_screen (con w)))))\<rparr>)
             keys of
        ((e, w'), rest) \<Rightarrow> (w', rest))"

subsection \<open>The calculator (lines 373-430)\<close>

text \<open>
  \<^verbatim>\<open>input\<close> holds the characters typed so far, followed by its terminator at \<^verbatim>\<open>input_pos\<close>;
  the list is these characters, and \<^verbatim>\<open>input_pos\<close> is its length.
\<close>

definition signed_decimal :: "INTN \<Rightarrow> CHAR16 list" where
  "signed_decimal v =
     (if sint v < 0 then of_char CHR ''-'' # decimal (nat (- sint v)) else decimal (nat (sint v)))"

definition calc_show :: "CHAR16 list \<Rightarrow> console \<Rightarrow> console" where
  "calc_show input c =
     c @ [SetCursorPosition 17 10, OutputString (replicate 46 (of_char CHR '' '')),
          SetCursorPosition 17 10, OutputString input]"

definition calc_key :: "EFI_INPUT_KEY \<Rightarrow> CHAR16 list \<times> console \<Rightarrow> bool \<times> CHAR16 list \<times> console" where
  "calc_key key s =
     (case s of (input, c) \<Rightarrow>
        if ScanCode key = SCAN_ESC then (False, input, c)
        else if UnicodeChar key = CHAR_CARRIAGE_RETURN then
          (True, [],
           c @ [SetCursorPosition 17 12, OutputString (replicate 46 (of_char CHR '' '')),
                SetCursorPosition 17 12,
                OutputString (L ''Result: '' @ signed_decimal (evaluate_expression input))])
        else if UnicodeChar key = CHAR_BACKSPACE then
          (True, (if length input > 0 then butlast input else input), c)
        else if (of_char CHR ''0'' \<le> UnicodeChar key \<and> UnicodeChar key \<le> of_char CHR ''9'') \<or>
                UnicodeChar key = of_char CHR ''+'' \<or> UnicodeChar key = of_char CHR ''-'' \<or>
                UnicodeChar key = of_char CHR ''*'' \<or> UnicodeChar key = of_char CHR ''/'' then
          (True, (if length input < 127 then input @ [UnicodeChar key] else input), c)
        else (True, input, c))"

fun calc_loop ::
  "CHAR16 list \<times> console \<Rightarrow> EFI_INPUT_KEY list \<Rightarrow> console \<times> EFI_INPUT_KEY list option" where
  "calc_loop (input, c) [] = (calc_show input c, None)"
| "calc_loop (input, c) (key # keys) =
     (case calc_key key (input, calc_show input c) of
        (running, input', c') \<Rightarrow> if running then calc_loop (input', c') keys else (c', Some keys))"

definition app_calc :: "world \<Rightarrow> EFI_INPUT_KEY list \<Rightarrow> world \<times> EFI_INPUT_KEY list option" where
  "app_calc w keys =
     (case calc_loop
             ([],
              output_string (L ''ENTER=Calculate, ESC=Exit'')
                (set_cursor 17 15
                  (output_string (L ''Enter expression (e.g., 5+3*2):'')
                    (set_cursor 17 8
                      (draw_window 15 6 50 12 (Some (L '' Calculator ''))
                        (draw_topbar (time (fw w)) (clear_screen (con w))))))))
             keys of
        (c', rest) \<Rightarrow> (w\<lparr>con := c'\<rparr>, rest))"

subsection \<open>The animation (lines 510-581)\<close>

text \<open>
  The animation polls the keyboard between frames and returns at the first Escape. Its
  frames are floating-point rendering and are left out of the console's calls; what is
  kept is the window it draws on entry and the keys it takes.
\<close>

fun donut_keys :: "EFI_INPUT_KEY list \<Rightarrow> EFI_INPUT_KEY list option" where
  "donut_keys [] = None"
| "donut_keys (key # keys) = (if ScanCode key = SCAN_ESC then Some keys else donut_keys keys)"

definition app_donut :: "world \<Rightarrow> EFI_INPUT_KEY list \<Rightarrow> world \<times> EFI_INPUT_KEY list option" where
  "app_donut w keys =
     (w\<lparr>con := output_string (L ''Press ESC to exit'')
                  (set_cursor 7 22
                    (draw_window 5 2 70 21 (Some (L '' Donut Animation ''))
                      (draw_topbar (time (fw w)) (clear_screen (con w)))))\<rparr>,
      donut_keys keys)"

subsection \<open>The main menu (lines 584-661)\<close>

text \<open>
  Lines 608-629: the menu is drawn anew before every key. The calls are composed from right
  to left: \<^verbatim>\<open>clear_screen\<close> is the first.
\<close>

definition draw_menu :: "world \<Rightarrow> world" where
  "draw_menu w =
     w\<lparr>con :=
         (output_string (L ''+'') \<circ> set_cursor (fst (cursor w)) (snd (cursor w)) \<circ> draw_dock
          \<circ> output_string (L ''[Q] Quit to Firmware'') \<circ> set_cursor 27 14
          \<circ> output_string (L ''[D] Donut Animation'') \<circ> set_cursor 27 13
          \<circ> output_string (L ''[E] Editor'') \<circ> set_cursor 27 12
          \<circ> output_string (L ''[C] Calculator'') \<circ> set_cursor 27 11
          \<circ> output_string (L ''[N] Notepad'') \<circ> set_cursor 27 10
          \<circ> draw_window 25 8 30 10 (Some (L '' Main Menu ''))
          \<circ> draw_topbar (time (fw w)) \<circ> clear_screen) (con w)\<rparr>"

text \<open>An application that has returned leaves fewer keys than it was given.\<close>

lemma notepad_loop_rest:
  "notepad_loop w keys = (w', Some rest) \<Longrightarrow> length rest < length keys"
proof (induction keys arbitrary: w)
  case Nil
  then show ?case by simp
next
  case (Cons key keys)
  obtain running w1 where k: "notepad_key key (w\<lparr>con := notepad_show (notepad_state w) (con w)\<rparr>) = (running, w1)"
    by (cases "notepad_key key (w\<lparr>con := notepad_show (notepad_state w) (con w)\<rparr>)")
  show ?case
  proof (cases running)
    case True
    with Cons.prems k have "notepad_loop w1 keys = (w', Some rest)" by simp
    from Cons.IH [OF this] show ?thesis by simp
  next
    case False
    with Cons.prems k show ?thesis by simp
  qed
qed

lemma editor_loop_rest:
  "editor_loop s keys = (s', Some rest) \<Longrightarrow> length rest < length keys"
proof (induction keys arbitrary: s)
  case Nil
  then show ?case by (cases s) simp
next
  case (Cons key keys)
  obtain e w where s: "s = (e, w)" by (cases s)
  obtain running s1 where k: "editor_key key (e, w\<lparr>con := editor_show e (con w)\<rparr>) = (running, s1)"
    by (cases "editor_key key (e, w\<lparr>con := editor_show e (con w)\<rparr>)")
  show ?case
  proof (cases running)
    case True
    with Cons.prems k s have "editor_loop s1 keys = (s', Some rest)" by simp
    from Cons.IH [OF this] show ?thesis by simp
  next
    case False
    with Cons.prems k s show ?thesis by simp
  qed
qed

lemma calc_loop_rest:
  "calc_loop s keys = (c', Some rest) \<Longrightarrow> length rest < length keys"
proof (induction keys arbitrary: s)
  case Nil
  then show ?case by (cases s) simp
next
  case (Cons key keys)
  obtain input c where s: "s = (input, c)" by (cases s)
  obtain running input1 c1 where k: "calc_key key (input, calc_show input c) = (running, input1, c1)"
    by (cases "calc_key key (input, calc_show input c)")
  show ?case
  proof (cases running)
    case True
    with Cons.prems k s have "calc_loop (input1, c1) keys = (c', Some rest)" by simp
    from Cons.IH [OF this] show ?thesis by simp
  next
    case False
    with Cons.prems k s show ?thesis by simp
  qed
qed

lemma donut_keys_rest:
  "donut_keys keys = Some rest \<Longrightarrow> length rest < length keys"
  by (induction keys) (auto split: if_splits)

lemma app_notepad_rest:
  "app_notepad w keys = (w', Some rest) \<Longrightarrow> length rest < length keys"
  unfolding app_notepad_def by (rule notepad_loop_rest)

lemma app_editor_rest:
  "app_editor w keys = (w', Some rest) \<Longrightarrow> length rest < length keys"
  unfolding app_editor_def by (auto split: prod.splits dest: editor_loop_rest)

lemma app_calc_rest:
  "app_calc w keys = (w', Some rest) \<Longrightarrow> length rest < length keys"
  unfolding app_calc_def by (auto split: prod.splits dest: calc_loop_rest)

lemma app_donut_rest:
  "app_donut w keys = (w', Some rest) \<Longrightarrow> length rest < length keys"
  unfolding app_donut_def by (auto dest: donut_keys_rest)

text \<open>
  Lines 633-654: one key of the menu, after the menu has been drawn. A launched
  application takes the keys that follow until it returns. The result is the state, the
  keys left (\<open>None\<close> when an application still waits for a key) and the flag
  \<^verbatim>\<open>running\<close>.
\<close>

definition menu_key ::
  "EFI_INPUT_KEY \<Rightarrow> world \<Rightarrow> EFI_INPUT_KEY list \<Rightarrow> world \<times> EFI_INPUT_KEY list option \<times> bool" where
  "menu_key key w keys =
     (if ScanCode key = SCAN_UP \<and> snd (cursor w) > 1 then
        (w\<lparr>cursor := (fst (cursor w), snd (cursor w) - 1)\<rparr>, Some keys, True)
      else if ScanCode key = SCAN_DOWN \<and> snd (cursor w) < SCREEN_HEIGHT - 2 then
        (w\<lparr>cursor := (fst (cursor w), snd (cursor w) + 1)\<rparr>, Some keys, True)
      else if ScanCode key = SCAN_LEFT \<and> fst (cursor w) > 0 then
        (w\<lparr>cursor := (fst (cursor w) - 1, snd (cursor w))\<rparr>, Some keys, True)
      else if ScanCode key = SCAN_RIGHT \<and> fst (cursor w) < SCREEN_WIDTH - 1 then
        (w\<lparr>cursor := (fst (cursor w) + 1, snd (cursor w))\<rparr>, Some keys, True)
      else if UnicodeChar key = of_char CHR ''n'' \<or> UnicodeChar key = of_char CHR ''N'' then
        (case app_notepad w keys of (w', rest) \<Rightarrow> (w', rest, True))
      else if UnicodeChar key = of_char CHR ''c'' \<or> UnicodeChar key = of_char CHR ''C'' then
        (case app_calc w keys of (w', rest) \<Rightarrow> (w', rest, True))
      else if UnicodeChar key = of_char CHR ''e'' \<or> UnicodeChar key = of_char CHR ''E'' then
        (case app_editor w keys of (w', rest) \<Rightarrow> (w', rest, True))
      else if UnicodeChar key = of_char CHR ''d'' \<or> UnicodeChar key = of_char CHR ''D'' then
        (case app_donut w keys of (w', rest) \<Rightarrow> (w', rest, True))
      else if UnicodeChar key = of_char CHR ''q'' \<or> UnicodeChar key = of_char CHR ''Q'' then
        (w, Some keys, False)
      else (w, Some keys, True))"

lemma menu_key_rest:
  "menu_key key w keys = (w', Some rest, running) \<Longrightarrow> length rest \<le> length keys"
  unfolding menu_key_def
  by (auto split: if_splits prod.splits
           dest: app_notepad_rest app_editor_rest app_calc_rest app_donut_rest)

text \<open>
  The \<^verbatim>\<open>while (running)\<close> loop of \<^verbatim>\<open>efi_main\<close>. The flag of the result says whether the
  loop has ended (\<^verbatim>\<open>q\<close> or \<^verbatim>\<open>Q\<close>); it is \<open>False\<close> when the program still waits for a key,
  in the menu or in an application.
\<close>

function main_loop :: "world \<Rightarrow> EFI_INPUT_KEY list \<Rightarrow> world \<times> bool" where
  "main_loop w [] = (draw_menu w, False)"
| "main_loop w (key # keys) =
     (case menu_key key (draw_menu w) keys of
        (w', rest, running) \<Rightarrow>
          if running then
            (case rest of None \<Rightarrow> (w', False) | Some keys' \<Rightarrow> main_loop w' keys')
          else (w', True))"
  by pat_completeness auto
termination
proof (relation "measure (\<lambda>(w, keys). length keys)")
  show "wf (measure (\<lambda>(w, keys). length keys))"
    by simp
next
  fix w key keys x w' y rest running keys'
  assume "(w', y) = menu_key key (draw_menu w) keys" "(rest, running) = y" "rest = Some keys'"
  then have "menu_key key (draw_menu w) keys = (w', Some keys', running)"
    by simp
  from menu_key_rest [OF this]
  show "((w', keys'), (w, key # keys)) \<in> measure (\<lambda>(w, keys). length keys)"
    by simp
qed

text \<open>
  \<^verbatim>\<open>efi_main\<close> from the state the program is entered with: lines 598-601 put a terminator at
  the start of every notepad line and set \<^verbatim>\<open>notepad_lines\<close> to 1; after the loop the screen is
  cleared and the farewell is written.
\<close>

definition efi_main :: "world \<Rightarrow> EFI_INPUT_KEY list \<Rightarrow> world \<times> bool" where
  "efi_main w keys =
     (case main_loop
             (w\<lparr>notepad_state := (notepad_state w)
                   \<lparr>buffer := fold (\<lambda>i b. poke b i 0 0) [0..<MAX_LINES] (buffer (notepad_state w)),
                    lines := 1\<rparr>\<rparr>)
             keys of
        (w', returned) \<Rightarrow>
          if returned then
            (w'\<lparr>con := output_string (L ''Goodbye from ASCII-OS!'' @ [0x0D, 0x0A])
                          (clear_screen (con w'))\<rparr>, True)
          else (w', False))"

text \<open>
  The state at entry: the globals as their initialisers leave them (lines 33 and 38-41),
  an empty record of console calls.
\<close>

definition boot :: "firmware \<Rightarrow> text_array \<Rightarrow> world" where
  "boot f garbage =
     \<lparr>fw = f, con = [], cursor = (40, 12),
      notepad_state = \<lparr>buffer = (\<lambda>line col. 0), lines = 0, cursor_line = 0, cursor_col = 0\<rparr>,
      stack_garbage = garbage\<rparr>"

subsection \<open>Keys and machines used in examples\<close>

text \<open>
  A key that carries a character has scan code 0; a key that carries a scan code has
  character 0. \<open>no_file_system\<close> is a machine on which no volume is found.
\<close>

definition typed :: "CHAR16 \<Rightarrow> EFI_INPUT_KEY" where
  "typed ch = \<lparr>ScanCode = 0, UnicodeChar = ch\<rparr>"

definition pressed :: "16 word \<Rightarrow> EFI_INPUT_KEY" where
  "pressed sc = \<lparr>ScanCode = sc, UnicodeChar = 0\<rparr>"

definition no_file_system :: firmware where
  "no_file_system =
     \<lparr>LocateHandleBuffer_status = EFI_NOT_FOUND, handles_count = 0,
      HandleProtocol_status = EFI_SUCCESS, OpenVolume_status = EFI_SUCCESS,
      Open_status = EFI_SUCCESS, AllocatePool_status = EFI_SUCCESS,
      Read_status = EFI_SUCCESS, Write_status = EFI_SUCCESS,
      files = Map.empty, time = \<lparr>Hour = 12, Minute = 0, Second = 0\<rparr>\<rparr>"

section \<open>Strings in rows\<close>

lemma takeWhile_update_stop:
  "\<not> P z \<Longrightarrow> c < length xs \<Longrightarrow> takeWhile P (xs[c := z]) = take c (takeWhile P xs)"
proof (induction xs arbitrary: c)
  case Nil
  then show ?case by simp
next
  case (Cons x xs)
  then show ?case by (cases c) auto
qed

lemma map_row_update:
  "c < n \<Longrightarrow> map (row(c := v)) [0..<n] = (map row [0..<n])[c := v]"
  by (rule nth_equalityI) (auto simp: nth_list_update)

lemma map_row_update_outside:
  "n \<le> c \<Longrightarrow> map (row(c := v)) [0..<n] = map row [0..<n]"
  by simp

lemma length_wstr: "length (wstr row) \<le> MAX_LINE_LENGTH"
  unfolding wstr_def using length_takeWhile_le [of "\<lambda>c. c \<noteq> 0" "map row [0..<MAX_LINE_LENGTH]"]
  by simp

lemma wstr_truncate: "wstr (row(c := 0)) = take c (wstr row)"
proof (cases "c < MAX_LINE_LENGTH")
  case True
  then show ?thesis
    by (simp add: wstr_def map_row_update takeWhile_update_stop)
next
  case False
  then have "take c (wstr row) = wstr row"
    using length_wstr [of row] by simp
  with False show ?thesis
    by (simp add: wstr_def)
qed

lemma wstr_nonzero: "0 \<notin> set (wstr row)"
  unfolding wstr_def by (auto dest: set_takeWhileD)

lemma wstr_nth: "j < length (wstr row) \<Longrightarrow> wstr row ! j = row j"
proof -
  assume j: "j < length (wstr row)"
  have "wstr row ! j = map row [0..<MAX_LINE_LENGTH] ! j"
    using j unfolding wstr_def by (rule takeWhile_nth)
  moreover have "j < MAX_LINE_LENGTH"
    using j length_wstr [of row] by simp
  ultimately show ?thesis by simp
qed

lemma wstr_terminator:
  "length (wstr row) < MAX_LINE_LENGTH \<Longrightarrow> row (length (wstr row)) = 0"
proof -
  assume l: "length (wstr row) < MAX_LINE_LENGTH"
  let ?xs = "map row [0..<MAX_LINE_LENGTH]"
  have "length (takeWhile (\<lambda>c. c \<noteq> 0) ?xs) < length ?xs"
    using l by (simp add: wstr_def)
  then have "\<not> (?xs ! length (takeWhile (\<lambda>c. c \<noteq> 0) ?xs) \<noteq> 0)"
    by (rule nth_length_takeWhile)
  with l show ?thesis by (simp add: wstr_def)
qed

lemma wstr_eqI:
  assumes len: "length s < MAX_LINE_LENGTH"
    and cells: "\<And>j. j < length s \<Longrightarrow> row j = s ! j"
    and stop: "row (length s) = 0"
    and nz: "0 \<notin> set s"
  shows "wstr row = s"
proof -
  have decomp: "[0..<MAX_LINE_LENGTH] = [0..<length s] @ length s # [Suc (length s)..<MAX_LINE_LENGTH]"
    using len by (metis less_imp_add_positive upt_add_eq_append upt_conv_Cons le0)
  have "map row [0..<length s] = s"
    by (rule nth_equalityI) (simp_all add: cells)
  then have "map row [0..<MAX_LINE_LENGTH] = s @ 0 # map row [Suc (length s)..<MAX_LINE_LENGTH]"
    by (simp add: decomp stop)
  moreover have "\<forall>x\<in>set s. x \<noteq> 0"
    using nz by auto
  ultimately show ?thesis
    by (simp add: wstr_def)
qed

lemma map_StrLen: "map row [0..<StrLen row] = wstr row"
  by (rule nth_equalityI) (simp_all add: StrLen_def wstr_nth)

lemma wstr_type_char:
  assumes "c \<le> length (wstr row)" "ch \<noteq> 0" "Suc c < MAX_LINE_LENGTH"
  shows "wstr (row(c := ch, Suc c := 0)) = take c (wstr row) @ [ch]"
proof (rule wstr_eqI)
  show "length (take c (wstr row) @ [ch]) < MAX_LINE_LENGTH"
    using assms by simp
  show "(row(c := ch, Suc c := 0)) (length (take c (wstr row) @ [ch])) = 0"
    using assms by simp
  show "0 \<notin> set (take c (wstr row) @ [ch])"
    using assms wstr_nonzero [of row] by (auto dest: in_set_takeD)
  fix j assume "j < length (take c (wstr row) @ [ch])"
  then show "(row(c := ch, Suc c := 0)) j = (take c (wstr row) @ [ch]) ! j"
    using assms by (auto simp: nth_append wstr_nth less_Suc_eq)
qed


section \<open>The key handler, branch by branch\<close>

lemmas scan_defs = SCAN_ESC_def SCAN_F2_def SCAN_F3_def SCAN_UP_def SCAN_DOWN_def
  SCAN_LEFT_def SCAN_RIGHT_def

lemma text_key_backspace:
  "text_key CHAR_BACKSPACE e =
     (if cursor_col e > 0 then
        e\<lparr>buffer := poke (buffer e) (cursor_line e) (cursor_col e - 1) 0,
          cursor_col := cursor_col e - 1\<rparr>
      else e)"
  by (simp add: text_key_def)

lemma text_key_enter:
  "text_key CHAR_CARRIAGE_RETURN e =
     (let line = (if cursor_line e + 1 \<ge> MAX_LINES then MAX_LINES - 1 else cursor_line e + 1)
      in \<lparr>buffer = poke (buffer e) (cursor_line e) (cursor_col e) 0,
          lines = (if line \<ge> lines e then line + 1 else lines e),
          cursor_line = line, cursor_col = 0\<rparr>)"
  by (simp add: text_key_def CHAR_CARRIAGE_RETURN_def CHAR_BACKSPACE_def Let_def)

lemma text_key_printable:
  "32 \<le> ch \<Longrightarrow> ch < 127 \<Longrightarrow>
   text_key ch e =
     (if cursor_col e < MAX_LINE_LENGTH - 1 then
        \<lparr>buffer = poke (poke (buffer e) (cursor_line e) (cursor_col e) ch)
                    (cursor_line e) (cursor_col e + 1) 0,
         lines = (if cursor_line e \<ge> lines e then cursor_line e + 1 else lines e),
         cursor_line = cursor_line e,
         cursor_col = cursor_col e + 1\<rparr>
      else e)"
  by (auto simp: text_key_def CHAR_CARRIAGE_RETURN_def CHAR_BACKSPACE_def)

lemma poke_row: "poke b l c v l = (b l)(c := v)"
  by (simp add: poke_def)

lemma poke_other: "l' \<noteq> l \<Longrightarrow> poke b l c v l' = b l'"
  by (simp add: poke_def)

section \<open>The expression evaluator\<close>

text \<open>
  C6. \<^verbatim>\<open>evaluate_expression\<close> on \<^verbatim>\<open>"5+3*2"\<close> returns 16, that is (5+3)*2: the operators are
  applied from left to right without precedence, so the result is not 11.
\<close>

theorem evaluate_no_precedence:
  "evaluate_expression (L ''5+3*2'') = 16 \<and> sint (evaluate_expression (L ''5+3*2'')) = 16
   \<and> evaluate_expression (L ''5+3*2'') \<noteq> 11"
  by (simp add: evaluate_expression_def L_def apply_op_def)

text \<open>
  C2, as the code has it. \<^verbatim>\<open>evaluate_expression\<close> on \<^verbatim>\<open>"8/0+1"\<close> returns 9: the pending \<^verbatim>\<open>+\<close>
  first adds 8, the division by the operand 0 is skipped and leaves the running result 8,
  and the final \<^verbatim>\<open>+\<close> adds 1. Skipping a division by zero leaves the running result as
  it is, for every running result and every pending input.
\<close>

theorem evaluate_division_by_zero_skipped:
  "evaluate_expression (L ''8/0+1'') = 9 \<and> sint (evaluate_expression (L ''8/0+1'')) = 9
   \<and> apply_op (of_char CHR ''/'') result 0 = result"
  by (simp add: evaluate_expression_def L_def apply_op_def)

text \<open>C2, as the claim states it: the value 1 is not what the code returns.\<close>

theorem evaluate_division_by_zero_counterexample:
  "evaluate_expression (L ''8/0+1'') \<noteq> 1"
  by (simp add: evaluate_expression_def L_def apply_op_def)

section \<open>The line buffer at its bounds\<close>

text \<open>
  C8. A Backspace key when the cursor column is 0 changes nothing, in the notepad and in
  the editor: the handler returns the state it was given, buffer and cursor included. At
  every column, Backspace leaves the cursor's line, the line count and every other line of
  the buffer as they are, so it never joins the line with the one before.
\<close>

theorem backspace_column_0_no_op:
  assumes "ScanCode key \<noteq> SCAN_ESC" "ScanCode key \<noteq> SCAN_F2" "ScanCode key \<noteq> SCAN_F3"
    and "UnicodeChar key = CHAR_BACKSPACE"
  shows "(cursor_col (notepad_state w) = 0 \<longrightarrow> notepad_key key w = (True, w))
       \<and> (cursor_col e = 0 \<longrightarrow> editor_key key (e, w) = (True, e, w))
       \<and> cursor_line (notepad_state (snd (notepad_key key w))) = cursor_line (notepad_state w)
       \<and> lines (notepad_state (snd (notepad_key key w))) = lines (notepad_state w)
       \<and> (\<forall>l. l \<noteq> cursor_line (notepad_state w) \<longrightarrow>
             buffer (notepad_state (snd (notepad_key key w))) l = buffer (notepad_state w) l)
       \<and> cursor_line (fst (snd (editor_key key (e, w)))) = cursor_line e
       \<and> lines (fst (snd (editor_key key (e, w)))) = lines e
       \<and> (\<forall>l. l \<noteq> cursor_line e \<longrightarrow> buffer (fst (snd (editor_key key (e, w)))) l = buffer e l)"
  using assms
  by (simp add: notepad_key_def editor_key_def text_key_backspace poke_other)

text \<open>C8, at the notepad on entry and at an editor with one empty line.\<close>

theorem backspace_column_0_no_op_witness:
  "notepad_key (typed CHAR_BACKSPACE) (boot no_file_system (\<lambda>line col. 0))
     = (True, boot no_file_system (\<lambda>line col. 0))
   \<and> editor_key (typed CHAR_BACKSPACE)
        (\<lparr>buffer = (\<lambda>line col. 0), lines = 1, cursor_line = 0, cursor_col = 0\<rparr>,
         boot no_file_system (\<lambda>line col. 0))
     = (True, \<lparr>buffer = (\<lambda>line col. 0), lines = 1, cursor_line = 0, cursor_col = 0\<rparr>,
        boot no_file_system (\<lambda>line col. 0))"
  using backspace_column_0_no_op [of "typed CHAR_BACKSPACE" "boot no_file_system (\<lambda>line col. 0)"
      "\<lparr>buffer = (\<lambda>line col. 0), lines = 1, cursor_line = 0, cursor_col = 0\<rparr>"]
  by (simp add: typed_def scan_defs boot_def)

text \<open>
  C4, as the code has it. A printable character typed when the cursor column is 255 is
  dropped: the whole state, so the buffer, the cursor, the line count and the console, is
  unchanged. Enter on line index 99 keeps the cursor on line 99 and moves it to column 0,
  leaves the line count at 100 (at what it was when that was more), writes nothing to the
  console and changes one cell of the buffer: the one under the cursor becomes the
  terminator, which cuts line 99 at the cursor column and leaves every other line as it is.
\<close>

theorem capacity_bounds:
  assumes "ScanCode key \<noteq> SCAN_ESC" "ScanCode key \<noteq> SCAN_F2" "ScanCode key \<noteq> SCAN_F3"
  shows "(32 \<le> UnicodeChar key \<and> UnicodeChar key < 127 \<and> cursor_col (notepad_state w) = 255 \<longrightarrow>
            notepad_key key w = (True, w))
       \<and> (32 \<le> UnicodeChar key \<and> UnicodeChar key < 127 \<and> cursor_col e = 255 \<longrightarrow>
            editor_key key (e, w) = (True, e, w))
       \<and> (UnicodeChar key = CHAR_CARRIAGE_RETURN \<and> cursor_line (notepad_state w) = 99 \<longrightarrow>
            notepad_key key w =
              (True, w\<lparr>notepad_state :=
                         \<lparr>buffer = poke (buffer (notepad_state w)) 99 (cursor_col (notepad_state w)) 0,
                          lines = max 100 (lines (notepad_state w)),
                          cursor_line = 99, cursor_col = 0\<rparr>\<rparr>))
       \<and> (UnicodeChar key = CHAR_CARRIAGE_RETURN \<and> cursor_line e = 99 \<longrightarrow>
            editor_key key (e, w) =
              (True, \<lparr>buffer = poke (buffer e) 99 (cursor_col e) 0,
                      lines = max 100 (lines e), cursor_line = 99, cursor_col = 0\<rparr>, w))
       \<and> wstr (poke b 99 c 0 99) = take c (wstr (b 99))
       \<and> (\<forall>l. l \<noteq> 99 \<longrightarrow> poke b 99 c 0 l = b l)"
  using assms
  by (auto simp: notepad_key_def editor_key_def text_key_enter text_key_printable
                 MAX_LINES_def MAX_LINE_LENGTH_def poke_row poke_other wstr_truncate max_def)

text \<open>C4, at a notepad with the cursor in column 255 and at an editor on line 99.\<close>

theorem capacity_bounds_witness:
  "notepad_key (typed (of_char CHR ''a''))
     ((boot no_file_system (\<lambda>line col. 0))
        \<lparr>notepad_state := \<lparr>buffer = (\<lambda>line col. 0), lines = 1, cursor_line = 0, cursor_col = 255\<rparr>\<rparr>)
     = (True, (boot no_file_system (\<lambda>line col. 0))
        \<lparr>notepad_state := \<lparr>buffer = (\<lambda>line col. 0), lines = 1, cursor_line = 0, cursor_col = 255\<rparr>\<rparr>)
   \<and> editor_key (typed CHAR_CARRIAGE_RETURN)
        (\<lparr>buffer = (\<lambda>line col. 0), lines = 100, cursor_line = 99, cursor_col = 3\<rparr>,
         boot no_file_system (\<lambda>line col. 0))
     = (True, \<lparr>buffer = poke (\<lambda>line col. 0) 99 3 0, lines = 100, cursor_line = 99, cursor_col = 0\<rparr>,
        boot no_file_system (\<lambda>line col. 0))"
  using capacity_bounds [of "typed (of_char CHR ''a'')"
      "(boot no_file_system (\<lambda>line col. 0))
        \<lparr>notepad_state := \<lparr>buffer = (\<lambda>line col. 0), lines = 1, cursor_line = 0, cursor_col = 255\<rparr>\<rparr>"]
    capacity_bounds [of "typed CHAR_CARRIAGE_RETURN" "boot no_file_system (\<lambda>line col. 0)"
      "\<lparr>buffer = (\<lambda>line col. 0), lines = 100, cursor_line = 99, cursor_col = 3\<rparr>"]
  by (simp add: typed_def scan_defs boot_def CHAR_CARRIAGE_RETURN_def)

text \<open>
  C4, as the claim states it: with the cursor at the start of line 99, which holds
  \<^verbatim>\<open>"x"\<close>, Enter empties the line.
\<close>

theorem enter_on_last_line_counterexample:
  "wstr (buffer \<lparr>buffer = (\<lambda>line. StrCpy (\<lambda>col. 0) (L ''x'')),
                  lines = 100, cursor_line = 99, cursor_col = 0\<rparr> 99) = L ''x''
   \<and> wstr (buffer (fst (snd (editor_key (typed CHAR_CARRIAGE_RETURN)
       (\<lparr>buffer = (\<lambda>line. StrCpy (\<lambda>col. 0) (L ''x'')),
         lines = 100, cursor_line = 99, cursor_col = 0\<rparr>,
        boot no_file_system (\<lambda>line col. 0))))) 99) = []"
  by (simp add: editor_key_def typed_def scan_defs text_key_enter poke_row MAX_LINES_def
                wstr_truncate)
     (rule wstr_eqI, simp_all add: StrCpy_def L_def MAX_LINE_LENGTH_def)

section \<open>Failures of the file system\<close>

text \<open>
  C10. When \<^verbatim>\<open>load_from_file\<close> returns an error status, the line count it hands back is 0,
  whatever it was before the call, and the array is as it was. So F3 in the editor, when
  the load fails, leaves the editor with 0 lines and the cursor at (0, 0).
\<close>

theorem load_failure_clears_line_count:
  "(EFI_ERROR (fst (load_from_file filename buffer0 f)) \<longrightarrow>
      snd (load_from_file filename buffer0 f) = (buffer0, 0))
   \<and> (ScanCode key = SCAN_F3 \<and> EFI_ERROR (fst (load_from_file sample_txt (buffer e) (fw w))) \<longrightarrow>
      editor_key key (e, w) =
        (True, \<lparr>buffer = buffer e, lines = 0, cursor_line = 0, cursor_col = 0\<rparr>, w))"
  by (auto simp: load_from_file_def editor_key_def scan_defs EFI_ERROR_def EFI_SUCCESS_def
                 Let_def split: option.splits prod.splits)

text \<open>C10, at an editor of 7 lines on a machine without a file system.\<close>

theorem load_failure_clears_line_count_witness:
  "snd (load_from_file sample_txt (\<lambda>line. StrCpy (\<lambda>col. 0) (L ''x'')) no_file_system)
     = (\<lambda>line. StrCpy (\<lambda>col. 0) (L ''x''), 0)
   \<and> editor_key (pressed SCAN_F3)
        (\<lparr>buffer = (\<lambda>line. StrCpy (\<lambda>col. 0) (L ''x'')), lines = 7, cursor_line = 3, cursor_col = 1\<rparr>,
         boot no_file_system (\<lambda>line col. 0))
     = (True, \<lparr>buffer = (\<lambda>line. StrCpy (\<lambda>col. 0) (L ''x'')), lines = 0, cursor_line = 0, cursor_col = 0\<rparr>,
        boot no_file_system (\<lambda>line col. 0))"
  using load_failure_clears_line_count [of sample_txt "\<lambda>line. StrCpy (\<lambda>col. 0) (L ''x'')"
      no_file_system "pressed SCAN_F3"
      "\<lparr>buffer = (\<lambda>line. StrCpy (\<lambda>col. 0) (L ''x'')), lines = 7, cursor_line = 3, cursor_col = 1\<rparr>"
      "boot no_file_system (\<lambda>line col. 0)"]
  by (simp add: load_from_file_def no_file_system_def EFI_ERROR_def EFI_NOT_FOUND_def
                pressed_def boot_def)

text \<open>
  C5, where the code departs from it. On a machine where no file-system handle is found,
  \<^verbatim>\<open>load_from_file\<close> fails, and F3 in the editor returns with the console exactly as it
  was: no message is written (and the line count is 0). The same failure on F2 is
  reported, in the editor at (10, 21) and in the notepad at (12, 20), and in all three
  cases \<^verbatim>\<open>running\<close> stays true.
\<close>

theorem reload_failure_shows_no_message:
  "EFI_ERROR (fst (load_from_file sample_txt (buffer e) ((fw w)\<lparr>handles_count := 0\<rparr>)))
   \<and> editor_key (pressed SCAN_F3) (e, w\<lparr>fw := (fw w)\<lparr>handles_count := 0\<rparr>\<rparr>) =
       (True, \<lparr>buffer = buffer e, lines = 0, cursor_line = 0, cursor_col = 0\<rparr>,
        w\<lparr>fw := (fw w)\<lparr>handles_count := 0\<rparr>\<rparr>)
   \<and> editor_key (pressed SCAN_F2) (e, w\<lparr>fw := (fw w)\<lparr>handles_count := 0\<rparr>\<rparr>) =
       (True, e,
        w\<lparr>fw := (fw w)\<lparr>handles_count := 0\<rparr>,
          con := con w @ [SetCursorPosition 10 21,
                          OutputString (L ''Save failed (filesystem unavailable)'')]\<rparr>)
   \<and> notepad_key (pressed SCAN_F2) (w\<lparr>fw := (fw w)\<lparr>handles_count := 0\<rparr>\<rparr>) =
       (True,
        w\<lparr>fw := (fw w)\<lparr>handles_count := 0\<rparr>,
          con := con w @ [SetCursorPosition 12 20,
                          OutputString (L ''Save failed (filesystem unavailable)'')]\<rparr>)"
  by (simp add: load_from_file_def save_to_file_def editor_key_def notepad_key_def pressed_def
                scan_defs EFI_ERROR_def EFI_NOT_FOUND_def set_cursor_def output_string_def)

section \<open>Loading a file\<close>

text \<open>
  The specification's words for \<^verbatim>\<open>load\<close>: it reads up to 8 KiB (4096 units), splits on CR or
  LF, discards empty fragments, truncates each line at 255 characters and caps at 100 lines.
  \<open>fragments cur data\<close> are the pieces of \<open>data\<close> between separators, the first one
  continuing \<open>cur\<close>.
\<close>

fun fragments :: "CHAR16 list \<Rightarrow> CHAR16 list \<Rightarrow> CHAR16 list list" where
  "fragments cur [] = [cur]"
| "fragments cur (c # cs) =
     (if c = 0x0D \<or> c = 0x0A then cur # fragments [] cs else fragments (cur @ [c]) cs)"

definition spec_load_lines :: "CHAR16 list \<Rightarrow> CHAR16 list list" where
  "spec_load_lines data =
     take 100 (map (take 255) (filter (\<lambda>l. l \<noteq> []) (fragments [] (take 4096 data))))"

text \<open>
  A row holds a string when its first cells are the characters of the string and the next
  cell is the terminator; an array stores \<open>n\<close> lines when its first \<open>n\<close> rows hold them.
\<close>

definition row_holds :: "line_array \<Rightarrow> CHAR16 list \<Rightarrow> bool" where
  "row_holds row s = (map row [0..<Suc (length s)] = s @ [0])"

definition stores :: "text_array \<Rightarrow> nat \<Rightarrow> CHAR16 list list \<Rightarrow> bool" where
  "stores b n ls = (n = length ls \<and> list_all (\<lambda>i. row_holds (b i) (ls ! i)) [0..<n])"

lemma row_holds_iff:
  "row_holds row s \<longleftrightarrow> (\<forall>j<length s. row j = s ! j) \<and> row (length s) = 0"
proof
  assume h: "row_holds row s"
  show "(\<forall>j<length s. row j = s ! j) \<and> row (length s) = 0"
  proof (intro conjI allI impI)
    fix j assume j: "j < length s"
    from h have "map row [0..<Suc (length s)] ! j = (s @ [0]) ! j"
      by (simp add: row_holds_def)
    with j show "row j = s ! j"
      by (simp add: nth_append del: upt_Suc)
  next
    from h have "map row [0..<Suc (length s)] ! length s = (s @ [0]) ! length s"
      by (simp add: row_holds_def)
    then show "row (length s) = 0"
      by (simp del: upt_Suc)
  qed
next
  assume h: "(\<forall>j<length s. row j = s ! j) \<and> row (length s) = 0"
  show "row_holds row s"
    unfolding row_holds_def
    by (rule nth_equalityI) (use h in \<open>auto simp: nth_append less_Suc_eq\<close>)
qed

lemma stores_iff:
  "stores b n ls \<longleftrightarrow> n = length ls \<and> (\<forall>i<n. row_holds (b i) (ls ! i))"
  by (auto simp: stores_def list_all_iff)

lemma row_holds_wstr:
  assumes "row_holds row s" "length s < MAX_LINE_LENGTH"
  shows "wstr row = takeWhile (\<lambda>c. c \<noteq> 0) s"
proof -
  have "[0..<MAX_LINE_LENGTH] = [0..<Suc (length s)] @ [Suc (length s)..<MAX_LINE_LENGTH]"
    using assms(2) by (metis Suc_leI le0 le_Suc_ex upt_add_eq_append)
  then have "map row [0..<MAX_LINE_LENGTH] = (s @ [0]) @ map row [Suc (length s)..<MAX_LINE_LENGTH]"
    using assms(1) by (metis map_append row_holds_def)
  moreover have "takeWhile (\<lambda>c. c \<noteq> 0) (s @ 0 # r) = takeWhile (\<lambda>c. c \<noteq> 0) s" for r :: "CHAR16 list"
    by (induction s) auto
  ultimately show ?thesis
    by (simp add: wstr_def)
qed

text \<open>
  The invariant of the parsing loop: the rows before \<^verbatim>\<open>line\<close> hold the lines completed so far,
  and the first \<^verbatim>\<open>col\<close> cells of row \<^verbatim>\<open>line\<close> are the current fragment, cut at 255.
\<close>

definition parse_inv ::
  "text_array \<Rightarrow> nat \<Rightarrow> nat \<Rightarrow> CHAR16 list list \<Rightarrow> CHAR16 list \<Rightarrow> bool" where
  "parse_inv b line col done cur \<longleftrightarrow>
     line = length done \<and> line \<le> 100 \<and> (\<forall>i<line. row_holds (b i) (done ! i))
     \<and> col = min 255 (length cur) \<and> (\<forall>j<col. b line j = cur ! j) \<and> (line = 100 \<longrightarrow> cur = [])"

lemma parse_inv_close:
  assumes "parse_inv b line col done cur" "col > 0"
  shows "parse_inv (poke b line col 0) (line + 1) 0 (done @ [take 255 cur]) []"
    and "stores (poke b line col 0) (line + 1) (done @ [take 255 cur])"
  using assms
  by (auto simp: parse_inv_def stores_iff row_holds_iff poke_def nth_append less_Suc_eq min_def
           split: if_splits)

lemma parse_inv_skip:
  assumes "parse_inv b line col done cur" "col = 0"
  shows "parse_inv (poke b line col 0) line 0 done []"
  using assms
  by (auto simp: parse_inv_def row_holds_iff poke_def min_def split: if_splits)

lemma parse_inv_char:
  assumes "parse_inv b line col done cur" "col < 255" "line < 100"
  shows "parse_inv (poke b line col c) line (col + 1) done (cur @ [c])"
  using assms
  by (auto simp: parse_inv_def row_holds_iff poke_def nth_append min_def less_Suc_eq
           split: if_splits)

lemma parse_inv_drop:
  assumes "parse_inv b line col done cur" "\<not> col < 255" "line < 100"
  shows "parse_inv b line col done (cur @ [c])"
  using assms
  by (auto simp: parse_inv_def nth_append min_def split: if_splits)

lemma parse_inv_stores:
  assumes "parse_inv b line col done cur"
  shows "stores b line done"
  using assms by (simp add: parse_inv_def stores_iff)

lemma parse_lines_stores:
  assumes "parse_inv b line col done cur"
  shows "stores (fst (finish_lines (parse_lines cs (b, line, col))))
           (snd (finish_lines (parse_lines cs (b, line, col))))
           (take 100 (done @ map (take 255) (filter (\<lambda>l. l \<noteq> []) (fragments cur cs))))"
  using assms
proof (induction cs arbitrary: b line col "done" cur)
  case Nil
  show ?case
  proof (cases "col > 0")
    case True
    with Nil have "cur \<noteq> []" "line < 100" "line = length done"
      by (auto simp: parse_inv_def)
    with True parse_inv_close(2) [OF Nil True] show ?thesis
      by (simp add: finish_lines_def)
  next
    case False
    with Nil have "cur = []" "line \<le> 100" "line = length done"
      by (auto simp: parse_inv_def min_def split: if_splits)
    with False parse_inv_stores [OF Nil] show ?thesis
      by (simp add: finish_lines_def)
  qed
next
  case (Cons c cs)
  note inv = Cons.prems
  show ?case
  proof (cases "line < 100")
    case False
    with inv have "cur = []" "col = 0" "length done = 100" "line = 100"
      by (auto simp: parse_inv_def)
    with parse_inv_stores [OF inv] show ?thesis
      by (simp add: finish_lines_def MAX_LINES_def)
  next
    case lt: True
    show ?thesis
    proof (cases "c = 0x0D \<or> c = 0x0A")
      case sep: True
      show ?thesis
      proof (cases "col > 0")
        case True
        with inv have ne: "cur \<noteq> []" by (auto simp: parse_inv_def)
        from Cons.IH [OF parse_inv_close(1) [OF inv True]] sep lt True ne
        show ?thesis by (auto simp: MAX_LINES_def)
      next
        case False
        with inv have e: "cur = []" by (auto simp: parse_inv_def min_def split: if_splits)
        from False have "col = 0" by simp
        from Cons.IH [OF parse_inv_skip [OF inv this]] sep lt False e
        show ?thesis by (auto simp: MAX_LINES_def)
      qed
    next
      case nosep: False
      show ?thesis
      proof (cases "col < 255")
        case True
        from Cons.IH [OF parse_inv_char [OF inv True lt]] nosep lt True
        show ?thesis by (simp add: MAX_LINES_def MAX_LINE_LENGTH_def)
      next
        case False
        from Cons.IH [OF parse_inv_drop [OF inv False lt]] nosep lt False
        show ?thesis by (simp add: MAX_LINES_def MAX_LINE_LENGTH_def)
      qed
    qed
  qed
qed


lemma fragments_no_separator:
  "l \<in> set (fragments cur cs) \<Longrightarrow> set l \<subseteq> set cur \<union> {x. x \<noteq> 0x0D \<and> x \<noteq> 0x0A}"
proof (induction cs arbitrary: cur)
  case Nil
  then show ?case by simp
next
  case (Cons c cs)
  show ?case
  proof (cases "c = 0x0D \<or> c = 0x0A")
    case True
    with Cons.prems have "l = cur \<or> l \<in> set (fragments [] cs)"
      by auto
    then show ?thesis
      using Cons.IH [of "[]"] by auto
  next
    case False
    with Cons.prems have "l \<in> set (fragments (cur @ [c]) cs)"
      by simp
    from Cons.IH [OF this] False show ?thesis
      by auto
  qed
qed

lemma spec_load_lines_shape:
  assumes "l \<in> set (spec_load_lines data)"
  shows "l \<noteq> [] \<and> length l \<le> 255 \<and> 0x0D \<notin> set l \<and> 0x0A \<notin> set l"
proof -
  from assms obtain l' where l': "l' \<in> set (fragments [] (take 4096 data))" "l' \<noteq> []" "l = take 255 l'"
    unfolding spec_load_lines_def by (auto dest!: in_set_takeD)
  from fragments_no_separator [OF l'(1)] have "0x0D \<notin> set l' \<and> 0x0A \<notin> set l'"
    by auto
  with l' show ?thesis
    by (auto dest: in_set_takeD)
qed

text \<open>
  A machine on which every call succeeds, with the given files, and the condition under
  which the calls of \<^verbatim>\<open>load_from_file\<close> before the parsing loop all succeed.
\<close>

definition working_disk :: "(CHAR16 list \<rightharpoonup> CHAR16 list) \<Rightarrow> firmware" where
  "working_disk fs =
     \<lparr>LocateHandleBuffer_status = EFI_SUCCESS, handles_count = 1,
      HandleProtocol_status = EFI_SUCCESS, OpenVolume_status = EFI_SUCCESS,
      Open_status = EFI_SUCCESS, AllocatePool_status = EFI_SUCCESS,
      Read_status = EFI_SUCCESS, Write_status = EFI_SUCCESS,
      files = fs, time = \<lparr>Hour = 12, Minute = 0, Second = 0\<rparr>\<rparr>"

definition can_read :: "firmware \<Rightarrow> bool" where
  "can_read f \<longleftrightarrow>
     \<not> EFI_ERROR (LocateHandleBuffer_status f) \<and> handles_count f \<noteq> 0
     \<and> \<not> EFI_ERROR (HandleProtocol_status f) \<and> \<not> EFI_ERROR (OpenVolume_status f)
     \<and> \<not> EFI_ERROR (Open_status f) \<and> \<not> EFI_ERROR (AllocatePool_status f)
     \<and> \<not> EFI_ERROR (Read_status f)"

lemma load_from_file_ok:
  assumes "can_read f" "files f filename = Some data"
  shows "load_from_file filename b f =
           (EFI_SUCCESS, finish_lines (parse_lines (take 4096 data) (b, 0, 0)))"
  using assms by (simp add: load_from_file_def can_read_def Let_def)

lemma parse_inv_start: "parse_inv b 0 0 [] []"
  by (simp add: parse_inv_def)

text \<open>
  C7. When the firmware calls succeed and the file exists, \<^verbatim>\<open>load_from_file\<close> returns
  \<^verbatim>\<open>EFI_SUCCESS\<close> and the array stores exactly the lines the specification describes: the
  non-empty fragments between CR or LF characters of the first 4096 units (8 KiB) of the
  file, each cut at 255 characters, the first 100 of them. So at most 100 lines are
  stored, every stored line has at most 255 characters and contains neither CR nor LF,
  and nothing after the first 8 KiB is looked at. Read as a C string, a stored line ends
  at its first 0 character, if the file had one there.
\<close>

theorem load_from_file_lines:
  assumes "can_read f" "files f filename = Some data"
    and "load_from_file filename b f = (status, b', n)"
  shows "status = EFI_SUCCESS
       \<and> stores b' n (spec_load_lines data)
       \<and> map (\<lambda>i. wstr (b' i)) [0..<n] = map (takeWhile (\<lambda>c. c \<noteq> 0)) (spec_load_lines data)
       \<and> n \<le> 100
       \<and> (\<forall>l \<in> set (spec_load_lines data).
             l \<noteq> [] \<and> length l \<le> 255 \<and> 0x0D \<notin> set l \<and> 0x0A \<notin> set l)
       \<and> spec_load_lines data = spec_load_lines (take 4096 data)"
proof -
  from assms have st: "status = EFI_SUCCESS"
    and res: "finish_lines (parse_lines (take 4096 data) (b, 0, 0)) = (b', n)"
    by (simp_all add: load_from_file_ok)
  from parse_lines_stores [OF parse_inv_start, of "take 4096 data" b] res
  have sto: "stores b' n (spec_load_lines data)"
    by (simp add: spec_load_lines_def)
  then have n: "n = length (spec_load_lines data)"
    and rows: "\<And>i. i < n \<Longrightarrow> row_holds (b' i) (spec_load_lines data ! i)"
    by (simp_all add: stores_iff)
  have "n \<le> 100"
    unfolding n spec_load_lines_def by simp
  moreover have "map (\<lambda>i. wstr (b' i)) [0..<n] = map (takeWhile (\<lambda>c. c \<noteq> 0)) (spec_load_lines data)"
  proof (rule nth_equalityI)
    show "length (map (\<lambda>i. wstr (b' i)) [0..<n]) = length (map (takeWhile (\<lambda>c. c \<noteq> 0)) (spec_load_lines data))"
      by (simp add: n)
  next
    fix i assume "i < length (map (\<lambda>i. wstr (b' i)) [0..<n])"
    then have i: "i < n" by simp
    then have "spec_load_lines data ! i \<in> set (spec_load_lines data)"
      by (simp add: n)
    then have "length (spec_load_lines data ! i) < MAX_LINE_LENGTH"
      using spec_load_lines_shape [of "spec_load_lines data ! i" data]
      by (simp add: MAX_LINE_LENGTH_def)
    from row_holds_wstr [OF rows [OF i] this] i
    show "map (\<lambda>i. wstr (b' i)) [0..<n] ! i = map (takeWhile (\<lambda>c. c \<noteq> 0)) (spec_load_lines data) ! i"
      by (simp add: n)
  qed
  moreover have "spec_load_lines data = spec_load_lines (take 4096 data)"
    by (simp add: spec_load_lines_def)
  ultimately show ?thesis
    using st sto spec_load_lines_shape [of _ data] by blast
qed

text \<open>C7, at a file of two lines with an empty line between them.\<close>

theorem load_from_file_lines_witness:
  "load_from_file sample_txt (\<lambda>line col. 7)
     (working_disk [sample_txt \<mapsto> L ''ab'' @ [0x0D, 0x0A, 0x0A] @ L ''cd'']) =
     (EFI_SUCCESS,
      fst (snd (load_from_file sample_txt (\<lambda>line col. 7)
                 (working_disk [sample_txt \<mapsto> L ''ab'' @ [0x0D, 0x0A, 0x0A] @ L ''cd'']))), 2)
   \<and> map (\<lambda>i. wstr (fst (snd (load_from_file sample_txt (\<lambda>line col. 7)
                 (working_disk [sample_txt \<mapsto> L ''ab'' @ [0x0D, 0x0A, 0x0A] @ L ''cd'']))) i)) [0..<2]
       = [L ''ab'', L ''cd'']"
proof -
  let ?f = "working_disk [sample_txt \<mapsto> L ''ab'' @ [0x0D, 0x0A, 0x0A] @ L ''cd'']"
  obtain status b' n where r: "load_from_file sample_txt (\<lambda>line col. 7) ?f = (status, b', n)"
    by (cases "load_from_file sample_txt (\<lambda>line col. 7) ?f")
  have c: "can_read ?f"
    by (simp add: can_read_def working_disk_def EFI_ERROR_def EFI_SUCCESS_def)
  have d: "files ?f sample_txt = Some (L ''ab'' @ [0x0D, 0x0A, 0x0A] @ L ''cd'')"
    by (simp add: working_disk_def)
  have s: "spec_load_lines (L ''ab'' @ [0x0D, 0x0A, 0x0A] @ L ''cd'') = [L ''ab'', L ''cd'']"
    by (simp add: spec_load_lines_def L_def)
  have t: "map (takeWhile (\<lambda>c. c \<noteq> 0)) [L ''ab'', L ''cd''] = [L ''ab'', L ''cd'' :: CHAR16 list]"
    by (simp add: L_def)
  from load_from_file_lines [OF c d r]
  have "status = EFI_SUCCESS \<and> stores b' n [L ''ab'', L ''cd'']
        \<and> map (\<lambda>i. wstr (b' i)) [0..<n] = [L ''ab'', L ''cd'']"
    unfolding s t by blast
  then have a: "status = EFI_SUCCESS" and b: "stores b' n [L ''ab'', L ''cd'']"
    and m: "map (\<lambda>i. wstr (b' i)) [0..<n] = [L ''ab'', L ''cd'']"
    by blast+
  from b have n: "n = 2"
    by (simp add: stores_def)
  from m have "map (\<lambda>i. wstr (b' i)) [0..<2] = [L ''ab'', L ''cd'']"
    unfolding n .
  with a n show ?thesis
    unfolding r by (simp del: upt_Suc)
qed

section \<open>Saving and loading again\<close>

text \<open>
  The condition under which the calls of \<^verbatim>\<open>save_to_file\<close> succeed, the writes included, and
  the text the loop of lines 218-226 writes for the given rows.
\<close>

definition can_write :: "firmware \<Rightarrow> bool" where
  "can_write f \<longleftrightarrow>
     \<not> EFI_ERROR (LocateHandleBuffer_status f) \<and> handles_count f \<noteq> 0
     \<and> \<not> EFI_ERROR (HandleProtocol_status f) \<and> \<not> EFI_ERROR (OpenVolume_status f)
     \<and> \<not> EFI_ERROR (Open_status f) \<and> \<not> EFI_ERROR (Write_status f)"

definition saved_text :: "text_array \<Rightarrow> nat list \<Rightarrow> CHAR16 list" where
  "saved_text buf rows = concat (map (\<lambda>i. wstr (buf i) @ [0x0D, 0x0A]) rows)"

lemma file_write_ok:
  "\<not> EFI_ERROR st \<Longrightarrow>
   file_write st chunk (P @ rest, length P) =
     ((P @ chunk) @ drop (length chunk) rest, length (P @ chunk))"
  by (simp add: file_write_def)

lemma write_line_ok:
  assumes "\<not> EFI_ERROR st"
  shows "write_line st buf i (P @ rest, length P) =
           ((P @ wstr (buf i) @ [0x0D, 0x0A]) @ drop (length (wstr (buf i) @ [0x0D, 0x0A])) rest,
            length (P @ wstr (buf i) @ [0x0D, 0x0A]))"
proof -
  have "file_write st (wstr (buf i)) (P @ rest, length P) =
          ((P @ wstr (buf i)) @ drop (length (wstr (buf i))) rest, length (P @ wstr (buf i)))"
    using assms by (rule file_write_ok)
  then show ?thesis
    using file_write_ok [OF assms, of "[0x0D, 0x0A]" "P @ wstr (buf i)"
        "drop (length (wstr (buf i))) rest"]
    by (simp add: write_line_def map_StrLen add.commute)
qed

lemma fold_write_line:
  assumes "\<not> EFI_ERROR st"
  shows "fold (write_line st buf) rows (P @ rest, length P) =
           ((P @ saved_text buf rows) @ drop (length (saved_text buf rows)) rest,
            length (P @ saved_text buf rows))"
proof (induction rows arbitrary: P rest)
  case Nil
  show ?case by (simp add: saved_text_def)
next
  case (Cons i rows)
  have "fold (write_line st buf) (i # rows) (P @ rest, length P) =
          fold (write_line st buf) rows
            ((P @ wstr (buf i) @ [0x0D, 0x0A]) @ drop (length (wstr (buf i) @ [0x0D, 0x0A])) rest,
             length (P @ wstr (buf i) @ [0x0D, 0x0A]))"
    by (simp only: fold_Cons comp_apply write_line_ok [OF assms])
  also have "\<dots> = (((P @ wstr (buf i) @ [0x0D, 0x0A]) @ saved_text buf rows)
                     @ drop (length (saved_text buf rows))
                         (drop (length (wstr (buf i) @ [0x0D, 0x0A])) rest),
                    length ((P @ wstr (buf i) @ [0x0D, 0x0A]) @ saved_text buf rows))"
    by (rule Cons.IH)
  also have "\<dots> = ((P @ saved_text buf (i # rows)) @ drop (length (saved_text buf (i # rows))) rest,
                    length (P @ saved_text buf (i # rows)))"
    by (simp add: saved_text_def add.commute)
  finally show ?case .
qed

lemma save_to_file_ok:
  assumes "can_write f"
  shows "save_to_file filename buf n f =
           (EFI_SUCCESS,
            f\<lparr>files := (files f)(filename \<mapsto>
                 saved_text buf [0..<n]
                 @ drop (length (saved_text buf [0..<n]))
                     (case files f filename of None \<Rightarrow> [] | Some data \<Rightarrow> data))\<rparr>)"
proof -
  have "fold (write_line (Write_status f) buf) [0..<n]
          (case files f filename of None \<Rightarrow> [] | Some data \<Rightarrow> data, 0) =
        (saved_text buf [0..<n]
           @ drop (length (saved_text buf [0..<n]))
               (case files f filename of None \<Rightarrow> [] | Some data \<Rightarrow> data),
         length (saved_text buf [0..<n]))"
    using fold_write_line [of "Write_status f" buf "[0..<n]" "[]"] assms
    by (simp add: can_write_def)
  with assms show ?thesis
    by (simp add: save_to_file_def can_write_def Let_def)
qed

lemma fragments_append:
  "0x0D \<notin> set l \<Longrightarrow> 0x0A \<notin> set l \<Longrightarrow> fragments cur (l @ rest) = fragments (cur @ l) rest"
  by (induction l arbitrary: cur) auto

lemma fragments_saved:
  assumes "\<forall>l\<in>set ls. 0x0D \<notin> set l \<and> 0x0A \<notin> set l"
  shows "filter (\<lambda>l. l \<noteq> []) (fragments [] (concat (map (\<lambda>l. l @ [0x0D, 0x0A]) ls)))
           = filter (\<lambda>l. l \<noteq> []) ls"
  using assms
proof (induction ls)
  case Nil
  show ?case by simp
next
  case (Cons l ls)
  then have "fragments [] (concat (map (\<lambda>l. l @ [0x0D, 0x0A]) (l # ls))) =
               l # [] # fragments [] (concat (map (\<lambda>l. l @ [0x0D, 0x0A]) ls))"
    by (simp add: fragments_append)
  with Cons show ?case by simp
qed

lemma length_saved_text:
  "length (saved_text buf rows) = sum_list (map (\<lambda>i. StrLen (buf i) + 2) rows)"
  by (induction rows) (simp_all add: saved_text_def StrLen_def)

lemma spec_load_lines_saved:
  assumes n: "n \<le> 100"
    and rows: "\<forall>i<n. 1 \<le> StrLen (buf i) \<and> StrLen (buf i) \<le> 255
                 \<and> 0x0D \<notin> set (wstr (buf i)) \<and> 0x0A \<notin> set (wstr (buf i))"
    and size: "length (saved_text buf [0..<n]) \<le> 4096"
  shows "spec_load_lines (saved_text buf [0..<n]) = map (\<lambda>i. wstr (buf i)) [0..<n]"
proof -
  let ?ls = "map (\<lambda>i. wstr (buf i)) [0..<n]"
  have st: "saved_text buf [0..<n] = concat (map (\<lambda>l. l @ [0x0D, 0x0A]) ?ls)"
    by (simp add: saved_text_def comp_def)
  have "\<forall>l\<in>set ?ls. 0x0D \<notin> set l \<and> 0x0A \<notin> set l"
    using rows by auto
  then have "filter (\<lambda>l. l \<noteq> []) (fragments [] (saved_text buf [0..<n])) = filter (\<lambda>l. l \<noteq> []) ?ls"
    unfolding st by (rule fragments_saved)
  moreover have "filter (\<lambda>l. l \<noteq> []) ?ls = ?ls"
    using rows by (auto simp: StrLen_def filter_id_conv)
  moreover have "map (take 255) ?ls = ?ls"
    using rows by (auto simp: StrLen_def intro!: map_idI)
  ultimately show ?thesis
    using size n by (simp add: spec_load_lines_def)
qed

text \<open>
  C3, as the code has it. Let the first \<open>n\<close> rows of an array hold non-empty lines of at
  most 255 characters without CR or LF, with \<open>n\<close> at most 100, let the saved text (every
  line and its CR LF) fit into the 4096 units (8 KiB) that a load reads, and let the file
  not exist yet or be no longer than the saved text. When the firmware calls succeed,
  \<^verbatim>\<open>save_to_file\<close> followed by \<^verbatim>\<open>load_from_file\<close> of the same file returns \<^verbatim>\<open>EFI_SUCCESS\<close> twice,
  the line count \<open>n\<close> and exactly the original lines.
\<close>

theorem save_load_round_trip:
  assumes "can_write f" "can_read f"
    and "n \<le> 100"
    and "\<forall>i<n. 1 \<le> StrLen (buf i) \<and> StrLen (buf i) \<le> 255
                 \<and> 0x0D \<notin> set (wstr (buf i)) \<and> 0x0A \<notin> set (wstr (buf i))"
    and "sum_list (map (\<lambda>i. StrLen (buf i) + 2) [0..<n]) \<le> 4096"
    and "case files f filename of None \<Rightarrow> True
         | Some old \<Rightarrow> length old \<le> sum_list (map (\<lambda>i. StrLen (buf i) + 2) [0..<n])"
    and "save_to_file filename buf n f = (st, f')"
    and "load_from_file filename b0 f' = (st', b', n')"
  shows "st = EFI_SUCCESS \<and> st' = EFI_SUCCESS \<and> n' = n
       \<and> map (\<lambda>i. wstr (b' i)) [0..<n'] = map (\<lambda>i. wstr (buf i)) [0..<n]"
proof -
  let ?W = "saved_text buf [0..<n]"
  have "drop (length ?W) (case files f filename of None \<Rightarrow> [] | Some data \<Rightarrow> data) = []"
    using assms(6) by (simp add: length_saved_text split: option.splits)
  with save_to_file_ok [OF assms(1), of filename buf n] assms(7)
  have st: "st = EFI_SUCCESS" and f': "f' = f\<lparr>files := (files f)(filename \<mapsto> ?W)\<rparr>"
    by simp_all
  have r: "can_read f'" and d: "files f' filename = Some ?W"
    using assms(2) by (simp_all add: f' can_read_def)
  have s: "spec_load_lines ?W = map (\<lambda>i. wstr (buf i)) [0..<n]"
    using assms(3,4,5) by (intro spec_load_lines_saved) (simp_all add: length_saved_text)
  have z: "map (takeWhile (\<lambda>c. c \<noteq> 0)) (map (\<lambda>i. wstr (buf i)) [0..<n]) = map (\<lambda>i. wstr (buf i)) [0..<n]"
    using wstr_nonzero by (auto simp: takeWhile_eq_all_conv)
  from load_from_file_lines [OF r d assms(8)]
  have "st' = EFI_SUCCESS" "stores b' n' (map (\<lambda>i. wstr (buf i)) [0..<n])"
    "map (\<lambda>i. wstr (b' i)) [0..<n'] = map (\<lambda>i. wstr (buf i)) [0..<n]"
    unfolding s z by blast+
  with st show ?thesis
    by (simp add: stores_def)
qed


text \<open>An array whose first rows hold the given strings, for examples.\<close>

definition array_of :: "CHAR16 list list \<Rightarrow> text_array" where
  "array_of ls = (\<lambda>line. StrCpy (\<lambda>col. 0) (if line < length ls then ls ! line else []))"

lemma wstr_StrCpy:
  "length s < MAX_LINE_LENGTH \<Longrightarrow> 0 \<notin> set s \<Longrightarrow> wstr (StrCpy row s) = s"
  by (rule wstr_eqI) (simp_all add: StrCpy_def)

lemma wstr_array_of:
  assumes "\<forall>l\<in>set ls. length l < MAX_LINE_LENGTH \<and> 0 \<notin> set l"
  shows "map (\<lambda>i. wstr (array_of ls i)) [0..<length ls] = ls"
  by (rule nth_equalityI) (use assms in \<open>simp_all add: array_of_def wstr_StrCpy\<close>)

text \<open>A load never stores more characters than the 4096 units it reads.\<close>

lemma sum_length_fragments:
  "sum_list (map length (fragments cur cs)) \<le> length cur + length cs"
proof (induction cs arbitrary: cur)
  case Nil
  show ?case by simp
next
  case (Cons c cs)
  show ?case
    using Cons [of "[]"] Cons [of "cur @ [c]"] by auto
qed

lemma sum_length_filter:
  "sum_list (map length (filter P xs)) \<le> sum_list (map length xs)"
  by (induction xs) auto

lemma sum_length_take:
  "sum_list (map length (take k xs)) \<le> sum_list (map length xs)"
proof (induction xs arbitrary: k)
  case Nil
  show ?case by simp
next
  case (Cons x xs)
  show ?case
    using Cons [of "k - 1"] by (cases k) auto
qed

lemma sum_length_map_take:
  "sum_list (map length (map (take k) xs)) \<le> sum_list (map length xs)"
  by (induction xs) auto

lemma sum_length_map_takeWhile:
  "sum_list (map length (map (takeWhile P) xs)) \<le> sum_list (map length xs)"
proof (induction xs)
  case Nil
  show ?case by simp
next
  case (Cons x xs)
  then show ?case
    using length_takeWhile_le [of P x] by simp
qed

lemma spec_load_lines_total:
  "sum_list (map length (map (takeWhile P) (spec_load_lines data))) \<le> 4096"
proof -
  have "sum_list (map length (map (takeWhile P) (spec_load_lines data)))
          \<le> sum_list (map length (spec_load_lines data))"
    by (rule sum_length_map_takeWhile)
  also have "\<dots> \<le> sum_list (map length (map (take 255)
                        (filter (\<lambda>l. l \<noteq> []) (fragments [] (take 4096 data)))))"
    unfolding spec_load_lines_def by (rule sum_length_take)
  also have "\<dots> \<le> sum_list (map length (filter (\<lambda>l. l \<noteq> []) (fragments [] (take 4096 data))))"
    by (rule sum_length_map_take)
  also have "\<dots> \<le> sum_list (map length (fragments [] (take 4096 data)))"
    by (rule sum_length_filter)
  also have "\<dots> \<le> length ([] :: CHAR16 list) + length (take 4096 data)"
    by (rule sum_length_fragments)
  also have "\<dots> \<le> 4096"
    by simp
  finally show ?thesis .
qed

lemma working_disk_can: "can_read (working_disk fs)" "can_write (working_disk fs)"
  by (simp_all add: can_read_def can_write_def working_disk_def EFI_ERROR_def EFI_SUCCESS_def)

text \<open>C3, at the two lines \<^verbatim>\<open>"hi"\<close> and \<^verbatim>\<open>"bye"\<close> on an empty volume.\<close>

theorem save_load_round_trip_witness:
  "fst (save_to_file notepad_txt (array_of [L ''hi'', L ''bye'']) 2 (working_disk Map.empty)) = EFI_SUCCESS
   \<and> fst (load_from_file notepad_txt (\<lambda>line col. 0)
            (snd (save_to_file notepad_txt (array_of [L ''hi'', L ''bye'']) 2 (working_disk Map.empty))))
       = EFI_SUCCESS
   \<and> snd (snd (load_from_file notepad_txt (\<lambda>line col. 0)
            (snd (save_to_file notepad_txt (array_of [L ''hi'', L ''bye'']) 2 (working_disk Map.empty)))))
       = 2
   \<and> map (\<lambda>i. wstr (fst (snd (load_from_file notepad_txt (\<lambda>line col. 0)
            (snd (save_to_file notepad_txt (array_of [L ''hi'', L ''bye'']) 2 (working_disk Map.empty))))) i))
         [0..<2]
       = [L ''hi'', L ''bye'']"
proof -
  let ?buf = "array_of [L ''hi'', L ''bye'']"
  let ?f = "working_disk Map.empty"
  obtain st f' where sv: "save_to_file notepad_txt ?buf 2 ?f = (st, f')"
    by (cases "save_to_file notepad_txt ?buf 2 ?f")
  obtain st' b' n' where ld: "load_from_file notepad_txt (\<lambda>line col. 0) f' = (st', b', n')"
    by (cases "load_from_file notepad_txt (\<lambda>line col. 0) f'")
  have w: "map (\<lambda>i. wstr (?buf i)) [0..<length [L ''hi'', L ''bye'']] = [L ''hi'', L ''bye'']"
    by (rule wstr_array_of) (simp add: L_def MAX_LINE_LENGTH_def)
  then have w0: "wstr (?buf 0) = L ''hi''" and w1: "wstr (?buf (Suc 0)) = L ''bye''"
    by simp_all
  have rows: "\<forall>i<2. 1 \<le> StrLen (?buf i) \<and> StrLen (?buf i) \<le> 255
                 \<and> 0x0D \<notin> set (wstr (?buf i)) \<and> 0x0A \<notin> set (wstr (?buf i))"
    by (simp add: less_Suc_eq numeral_2_eq_2 StrLen_def w0 w1) (simp add: L_def)
  have size: "sum_list (map (\<lambda>i. StrLen (?buf i) + 2) [0..<2]) \<le> 4096"
    by (simp add: numeral_2_eq_2 StrLen_def w0 w1) (simp add: L_def)
  have old: "case files ?f notepad_txt of None \<Rightarrow> True
             | Some old \<Rightarrow> length old \<le> sum_list (map (\<lambda>i. StrLen (?buf i) + 2) [0..<2])"
    by (simp add: working_disk_def)
  have n: "(2::nat) \<le> 100"
    by simp
  have rt: "st = EFI_SUCCESS \<and> st' = EFI_SUCCESS \<and> n' = 2
        \<and> map (\<lambda>i. wstr (b' i)) [0..<n'] = map (\<lambda>i. wstr (?buf i)) [0..<2]"
    by (rule save_load_round_trip [OF working_disk_can(2) working_disk_can(1) n rows size old sv ld])
  then have a: "st = EFI_SUCCESS" "st' = EFI_SUCCESS" "n' = 2"
    by blast+
  have l2: "length [L ''hi'', L ''bye'' :: CHAR16 list] = 2"
    by simp
  from rt have "map (\<lambda>i. wstr (b' i)) [0..<n'] = map (\<lambda>i. wstr (?buf i)) [0..<2]"
    by blast
  then have m: "map (\<lambda>i. wstr (b' i)) [0..<2] = [L ''hi'', L ''bye'']"
    unfolding a(3) w [unfolded l2] .
  show ?thesis
    unfolding sv snd_conv fst_conv ld by (intro conjI a m)
qed

text \<open>
  C3, as the claim states it: 17 lines of 255 characters are saved with success, 4369
  units in all, and the load that follows, which reads 4096 units, does not give back
  17 lines equal to the original ones.
\<close>

theorem save_load_8k_counterexample:
  "fst (save_to_file notepad_txt (array_of (replicate 17 (replicate 255 (of_char CHR ''a'')))) 17
         (working_disk Map.empty)) = EFI_SUCCESS
   \<and> map (\<lambda>i. StrLen (array_of (replicate 17 (replicate 255 (of_char CHR ''a''))) i)) [0..<17]
       = replicate 17 255
   \<and> \<not> (case load_from_file notepad_txt (\<lambda>line col. 0)
               (snd (save_to_file notepad_txt (array_of (replicate 17 (replicate 255 (of_char CHR ''a'')))) 17
                      (working_disk Map.empty))) of
          (st', b', n') \<Rightarrow>
            n' = 17 \<and> map (\<lambda>i. wstr (b' i)) [0..<n']
                     = map (\<lambda>i. wstr (array_of (replicate 17 (replicate 255 (of_char CHR ''a''))) i)) [0..<17])"
proof -
  let ?big = "replicate 17 (replicate 255 (of_char CHR ''a'' :: CHAR16))"
  let ?f = "working_disk Map.empty"
  let ?W = "saved_text (array_of ?big) [0..<17]"
  have sv: "save_to_file notepad_txt (array_of ?big) 17 ?f = (EFI_SUCCESS, ?f\<lparr>files := (files ?f)(notepad_txt \<mapsto> ?W)\<rparr>)"
    using save_to_file_ok [of ?f notepad_txt "array_of ?big" 17, OF working_disk_can(2)]
    by (simp add: working_disk_def)
  have w: "map (\<lambda>i. wstr (array_of ?big i)) [0..<length ?big] = ?big"
    by (rule wstr_array_of) (simp add: MAX_LINE_LENGTH_def)
  then have w17: "map (\<lambda>i. wstr (array_of ?big i)) [0..<17] = ?big"
    by simp
  have "map length (map (\<lambda>i. wstr (array_of ?big i)) [0..<17]) = replicate 17 255"
    unfolding w17 by simp
  then have lens: "map (\<lambda>i. StrLen (array_of ?big i)) [0..<17] = replicate 17 255"
    by (simp add: StrLen_def comp_def)
  obtain st' b' n' where ld: "load_from_file notepad_txt (\<lambda>line col. 0)
      (?f\<lparr>files := (files ?f)(notepad_txt \<mapsto> ?W)\<rparr>) = (st', b', n')"
    by (cases "load_from_file notepad_txt (\<lambda>line col. 0) (?f\<lparr>files := (files ?f)(notepad_txt \<mapsto> ?W)\<rparr>)")
  have r: "can_read (?f\<lparr>files := (files ?f)(notepad_txt \<mapsto> ?W)\<rparr>)"
    using working_disk_can(1) [of Map.empty] by (simp add: can_read_def)
  have d: "files (?f\<lparr>files := (files ?f)(notepad_txt \<mapsto> ?W)\<rparr>) notepad_txt = Some ?W"
    by simp
  from load_from_file_lines [OF r d ld]
  have m: "map (\<lambda>i. wstr (b' i)) [0..<n'] = map (takeWhile (\<lambda>c. c \<noteq> 0)) (spec_load_lines ?W)"
    by blast
  have "\<not> (n' = 17 \<and> map (\<lambda>i. wstr (b' i)) [0..<n'] = map (\<lambda>i. wstr (array_of ?big i)) [0..<17])"
  proof
    assume "n' = 17 \<and> map (\<lambda>i. wstr (b' i)) [0..<n'] = map (\<lambda>i. wstr (array_of ?big i)) [0..<17]"
    then have e: "map (\<lambda>i. wstr (b' i)) [0..<n'] = map (\<lambda>i. wstr (array_of ?big i)) [0..<17]"
      by blast
    have "map (takeWhile (\<lambda>c. c \<noteq> 0)) (spec_load_lines ?W) = map (\<lambda>i. wstr (b' i)) [0..<n']"
      by (rule m [symmetric])
    also have "\<dots> = map (\<lambda>i. wstr (array_of ?big i)) [0..<17]"
      by (rule e)
    also have "\<dots> = ?big"
      by (rule w17)
    finally have "sum_list (map length (map (takeWhile (\<lambda>c. c \<noteq> 0)) (spec_load_lines ?W))) = 17 * 255"
      by (simp add: sum_list_replicate)
    with spec_load_lines_total [of "\<lambda>c. c \<noteq> 0" ?W] show False
      by simp
  qed
  with sv lens show ?thesis
    unfolding sv snd_conv fst_conv ld by simp
qed

section \<open>Typing lines\<close>

text \<open>
  The keys of the claim: a printable character (codes 32 to 126) or Enter, with no scan
  code. In the specification's words, the lines typed are the characters between Enter
  presses: \<open>typed_lines cur keys\<close> are these lines, the first one continuing \<open>cur\<close>.
\<close>

definition typing_key :: "EFI_INPUT_KEY \<Rightarrow> bool" where
  "typing_key key \<longleftrightarrow>
     ScanCode key = 0 \<and>
     (UnicodeChar key = CHAR_CARRIAGE_RETURN \<or> (32 \<le> UnicodeChar key \<and> UnicodeChar key < 127))"

fun typed_lines :: "CHAR16 list \<Rightarrow> EFI_INPUT_KEY list \<Rightarrow> CHAR16 list list" where
  "typed_lines cur [] = [cur]"
| "typed_lines cur (key # keys) =
     (if UnicodeChar key = CHAR_CARRIAGE_RETURN then cur # typed_lines [] keys
      else typed_lines (cur @ [UnicodeChar key]) keys)"

definition enter_presses :: "EFI_INPUT_KEY list \<Rightarrow> nat" where
  "enter_presses keys = length (filter (\<lambda>key. UnicodeChar key = CHAR_CARRIAGE_RETURN) keys)"

text \<open>
  A fresh buffer: one line, the cursor at (0, 0), and a terminator at the start of each of
  the 100 rows, as lines 598-601 leave the notepad.
\<close>

definition fresh :: "textbuf \<Rightarrow> bool" where
  "fresh e \<longleftrightarrow>
     lines e = 1 \<and> cursor_line e = 0 \<and> cursor_col e = 0
     \<and> list_all (\<lambda>line. buffer e line 0 = 0) [0..<MAX_LINES]"

text \<open>
  The invariant while typing: the rows before the cursor's hold the completed lines, the
  cursor's row holds the current one with the cursor at its end, and the rows after it
  are still empty.
\<close>

definition edit_inv :: "textbuf \<Rightarrow> CHAR16 list list \<Rightarrow> CHAR16 list \<Rightarrow> bool" where
  "edit_inv e done cur \<longleftrightarrow>
     cursor_line e = length done \<and> lines e = length done + 1 \<and> length done < 100
     \<and> cursor_col e = length cur
     \<and> (\<forall>i<length done. wstr (buffer e i) = done ! i)
     \<and> wstr (buffer e (length done)) = cur
     \<and> (\<forall>l. length done < l \<and> l < 100 \<longrightarrow> buffer e l 0 = 0)"

lemma wstr_empty: "row 0 = 0 \<Longrightarrow> wstr row = []"
  by (rule wstr_eqI) (simp_all add: MAX_LINE_LENGTH_def)

lemma length_typed_lines: "length (typed_lines cur keys) = enter_presses keys + 1"
  by (induction keys arbitrary: cur) (simp_all add: enter_presses_def)

lemma typed_lines_first: "\<exists>l\<in>set (typed_lines cur keys). length cur \<le> length l"
proof (induction keys arbitrary: cur)
  case Nil
  show ?case by simp
next
  case (Cons key keys)
  show ?case
  proof (cases "UnicodeChar key = CHAR_CARRIAGE_RETURN")
    case True
    then show ?thesis by simp
  next
    case False
    from Cons [of "cur @ [UnicodeChar key]"] obtain l
      where "l \<in> set (typed_lines (cur @ [UnicodeChar key]) keys)" "length cur \<le> length l"
      by auto
    with False show ?thesis by auto
  qed
qed

lemma edit_inv_enter:
  assumes "edit_inv e done cur" "length done + 1 < 100"
  shows "edit_inv (text_key CHAR_CARRIAGE_RETURN e) (done @ [cur]) []"
  using assms
  by (auto simp: edit_inv_def text_key_enter Let_def MAX_LINES_def poke_def wstr_truncate
                 nth_append wstr_empty)

lemma edit_inv_char:
  assumes "edit_inv e done cur" "32 \<le> ch" "ch < 127" "length cur < 255"
  shows "edit_inv (text_key ch e) done (cur @ [ch])"
proof -
  have "ch \<noteq> 0"
    using assms(2) by auto
  then have "wstr ((buffer e (length done))(length cur := ch, Suc (length cur) := 0))
               = take (length cur) (wstr (buffer e (length done))) @ [ch]"
    using assms(1,4) by (intro wstr_type_char) (simp_all add: edit_inv_def MAX_LINE_LENGTH_def)
  with assms show ?thesis
    by (auto simp: edit_inv_def text_key_printable MAX_LINE_LENGTH_def poke_def)
qed

lemma edit_inv_lines:
  assumes "edit_inv e done cur"
  shows "map (\<lambda>i. wstr (buffer e i)) [0..<lines e] = done @ [cur]"
  by (rule nth_equalityI) (use assms in \<open>auto simp: edit_inv_def nth_append less_Suc_eq\<close>)

lemma typing_lines:
  assumes "edit_inv e done cur"
    and "list_all typing_key keys"
    and "length done + length (typed_lines cur keys) \<le> 100"
    and "\<forall>l\<in>set (typed_lines cur keys). length l \<le> 255"
  shows "map (\<lambda>i. wstr (buffer (foldl (\<lambda>e key. text_key (UnicodeChar key) e) e keys) i))
             [0..<lines (foldl (\<lambda>e key. text_key (UnicodeChar key) e) e keys)]
           = done @ typed_lines cur keys"
  using assms
proof (induction keys arbitrary: e "done" cur)
  case Nil
  then show ?case by (simp add: edit_inv_lines del: upt_Suc)
next
  case (Cons key keys)
  show ?case
  proof (cases "UnicodeChar key = CHAR_CARRIAGE_RETURN")
    case True
    with Cons.prems(3) have "length done + 1 < 100"
      by (simp add: length_typed_lines)
    from edit_inv_enter [OF Cons.prems(1) this]
    have "edit_inv (text_key (UnicodeChar key) e) (done @ [cur]) []"
      by (simp add: True)
    from Cons.IH [OF this] Cons.prems(2,3,4) True show ?thesis
      by simp
  next
    case False
    with Cons.prems(2) have ch: "32 \<le> UnicodeChar key" "UnicodeChar key < 127"
      by (simp_all add: typing_key_def)
    from typed_lines_first [of "cur @ [UnicodeChar key]" keys] Cons.prems(4) False
    have "length cur < 255"
      by auto
    from edit_inv_char [OF Cons.prems(1) ch this]
    have "edit_inv (text_key (UnicodeChar key) e) done (cur @ [UnicodeChar key])" .
    from Cons.IH [OF this] Cons.prems(2,3,4) False show ?thesis
      by simp
  qed
qed

lemma fresh_edit_inv: "fresh e \<Longrightarrow> edit_inv e [] []"
  by (auto simp: fresh_def edit_inv_def list_all_iff MAX_LINES_def wstr_empty)

lemma notepad_loop_typing:
  assumes "list_all typing_key keys"
  shows "snd (notepad_loop w keys) = None
       \<and> notepad_state (fst (notepad_loop w keys))
           = foldl (\<lambda>e key. text_key (UnicodeChar key) e) (notepad_state w) keys"
  using assms
proof (induction keys arbitrary: w)
  case Nil
  show ?case by simp
next
  case (Cons key keys)
  then have k: "typing_key key" and ks: "list_all typing_key keys"
    by simp_all
  from k have "ScanCode key \<noteq> SCAN_ESC" "ScanCode key \<noteq> SCAN_F2"
    by (simp_all add: typing_key_def scan_defs)
  with Cons.IH [OF ks] show ?case
    by (simp add: notepad_key_def)
qed

lemma editor_loop_typing:
  assumes "list_all typing_key keys"
  shows "snd (editor_loop (e, w) keys) = None
       \<and> fst (fst (editor_loop (e, w) keys))
           = foldl (\<lambda>e key. text_key (UnicodeChar key) e) e keys"
  using assms
proof (induction keys arbitrary: e w)
  case Nil
  show ?case by simp
next
  case (Cons key keys)
  then have k: "typing_key key" and ks: "list_all typing_key keys"
    by simp_all
  from k have "ScanCode key \<noteq> SCAN_ESC" "ScanCode key \<noteq> SCAN_F2" "ScanCode key \<noteq> SCAN_F3"
    by (simp_all add: typing_key_def scan_defs)
  with Cons.IH [OF ks] show ?case
    by (simp add: editor_key_def)
qed


text \<open>The buffer has one line more than Enter was pressed, and its lines are the typed ones.\<close>

definition holds_typed :: "textbuf \<Rightarrow> EFI_INPUT_KEY list \<Rightarrow> bool" where
  "holds_typed e keys \<longleftrightarrow>
     lines e = enter_presses keys + 1
     \<and> map (\<lambda>i. wstr (buffer e i)) [0..<lines e] = typed_lines [] keys"

lemma fresh_typing:
  assumes "fresh e" "list_all typing_key keys"
    and "\<forall>l\<in>set (typed_lines [] keys). length l \<le> 255"
    and "enter_presses keys < 100"
  shows "holds_typed (foldl (\<lambda>e key. text_key (UnicodeChar key) e) e keys) keys"
proof -
  let ?e = "foldl (\<lambda>e key. text_key (UnicodeChar key) e) e keys"
  have "length ([] :: CHAR16 list list) + length (typed_lines [] keys) \<le> 100"
    using assms(4) by (simp add: length_typed_lines)
  from typing_lines [OF fresh_edit_inv [OF assms(1)] assms(2) this assms(3)]
  have m: "map (\<lambda>i. wstr (buffer ?e i)) [0..<lines ?e] = typed_lines [] keys"
    by simp
  then have "length (map (\<lambda>i. wstr (buffer ?e i)) [0..<lines ?e]) = length (typed_lines [] keys)"
    by simp
  then have "lines ?e = enter_presses keys + 1"
    by (simp add: length_typed_lines)
  with m show ?thesis
    by (simp add: holds_typed_def)
qed

lemma fold_poke_zero:
  "l < n \<Longrightarrow> fold (\<lambda>i b. poke b i 0 0) [0..<n] b l 0 = 0"
  by (induction n) (auto simp: poke_def less_Suc_eq)

lemma main_loop_notepad_typing:
  assumes "list_all typing_key keys"
  shows "main_loop w (typed (of_char CHR ''n'') # keys) = (fst (app_notepad (draw_menu w) keys), False)"
proof -
  have "snd (app_notepad (draw_menu w) keys) = None"
    unfolding app_notepad_def using notepad_loop_typing [OF assms] by simp
  then obtain w' where "app_notepad (draw_menu w) keys = (w', None)"
    by (cases "app_notepad (draw_menu w) keys") simp
  then show ?thesis
    by (simp add: menu_key_def typed_def scan_defs)
qed

text \<open>
  C1. Take any sequence of printable-character keys (codes 32 to 126) and Enter presses,
  with at most 255 characters between two Enter presses and at most 100 lines in all.
  Typed into the notepad launched with \<^verbatim>\<open>n\<close> from the start of the program, whatever the
  state at entry, or handled by the notepad's or the editor's loop from a fresh buffer,
  it leaves a line count of the number of Enter presses plus 1, and the lines of the
  buffer are exactly the characters typed before each Enter, in order (the last line being
  the characters typed after the last Enter).
\<close>

theorem typing_fills_lines:
  assumes "list_all typing_key keys"
    and "\<forall>l\<in>set (typed_lines [] keys). length l \<le> 255"
    and "enter_presses keys < 100"
  shows "holds_typed (notepad_state (fst (efi_main w (typed (of_char CHR ''n'') # keys)))) keys
       \<and> (fresh (notepad_state w) \<longrightarrow> holds_typed (notepad_state (fst (notepad_loop w keys))) keys)
       \<and> (fresh e \<longrightarrow> holds_typed (fst (fst (editor_loop (e, w) keys))) keys)"
proof (intro conjI impI)
  let ?w0 = "w\<lparr>notepad_state := (notepad_state w)
                \<lparr>buffer := fold (\<lambda>i b. poke b i 0 0) [0..<MAX_LINES] (buffer (notepad_state w)),
                 lines := 1\<rparr>\<rparr>"
  let ?e0 = "(notepad_state ?w0)\<lparr>cursor_line := 0, cursor_col := 0\<rparr>"
  have f: "fresh ?e0"
    by (simp add: fresh_def list_all_iff fold_poke_zero)
  have "fst (efi_main w (typed (of_char CHR ''n'') # keys)) = fst (app_notepad (draw_menu ?w0) keys)"
    unfolding efi_main_def main_loop_notepad_typing [OF assms(1)] by simp
  moreover have "notepad_state (fst (app_notepad (draw_menu ?w0) keys))
                   = foldl (\<lambda>e key. text_key (UnicodeChar key) e) ?e0 keys"
    unfolding app_notepad_def using notepad_loop_typing [OF assms(1)]
    by (simp add: draw_menu_def)
  ultimately show "holds_typed (notepad_state (fst (efi_main w (typed (of_char CHR ''n'') # keys)))) keys"
    using fresh_typing [OF f assms] by simp
next
  assume "fresh (notepad_state w)"
  from fresh_typing [OF this assms] notepad_loop_typing [OF assms(1), of w]
  show "holds_typed (notepad_state (fst (notepad_loop w keys))) keys"
    by simp
next
  assume "fresh e"
  from fresh_typing [OF this assms] editor_loop_typing [OF assms(1), of e w]
  show "holds_typed (fst (fst (editor_loop (e, w) keys))) keys"
    by simp
qed

text \<open>C1, at the keys \<^verbatim>\<open>a\<close>, Enter, \<^verbatim>\<open>b\<close>.\<close>

theorem typing_fills_lines_witness:
  "lines (notepad_state (fst (efi_main (boot no_file_system (\<lambda>line col. 0))
       (typed (of_char CHR ''n'')
        # [typed (of_char CHR ''a''), typed CHAR_CARRIAGE_RETURN, typed (of_char CHR ''b'')])))) = 2
   \<and> map (\<lambda>i. wstr (buffer (notepad_state (fst (efi_main (boot no_file_system (\<lambda>line col. 0))
       (typed (of_char CHR ''n'')
        # [typed (of_char CHR ''a''), typed CHAR_CARRIAGE_RETURN, typed (of_char CHR ''b'')])))) i))
       [0..<2] = [L ''a'', L ''b'']
   \<and> lines (fst (fst (editor_loop
       (\<lparr>buffer = (\<lambda>line col. 0), lines = 1, cursor_line = 0, cursor_col = 0\<rparr>,
        boot no_file_system (\<lambda>line col. 0))
       [typed (of_char CHR ''a''), typed CHAR_CARRIAGE_RETURN, typed (of_char CHR ''b'')]))) = 2
   \<and> map (\<lambda>i. wstr (buffer (fst (fst (editor_loop
       (\<lparr>buffer = (\<lambda>line col. 0), lines = 1, cursor_line = 0, cursor_col = 0\<rparr>,
        boot no_file_system (\<lambda>line col. 0))
       [typed (of_char CHR ''a''), typed CHAR_CARRIAGE_RETURN, typed (of_char CHR ''b'')]))) i))
       [0..<2] = [L ''a'', L ''b'']"
proof -
  let ?keys = "[typed (of_char CHR ''a''), typed CHAR_CARRIAGE_RETURN, typed (of_char CHR ''b'')]"
  let ?w = "boot no_file_system (\<lambda>line col. 0)"
  let ?e = "\<lparr>buffer = (\<lambda>line col. 0), lines = 1, cursor_line = 0, cursor_col = 0\<rparr>"
  have k: "list_all typing_key ?keys"
    by (simp add: typing_key_def typed_def CHAR_CARRIAGE_RETURN_def)
  have t: "typed_lines [] ?keys = [L ''a'', L ''b'']"
    by (simp add: typed_def CHAR_CARRIAGE_RETURN_def L_def)
  have l: "\<forall>l\<in>set (typed_lines [] ?keys). length l \<le> 255"
    unfolding t by (simp add: L_def)
  have n: "enter_presses ?keys = 1"
    by (simp add: enter_presses_def typed_def CHAR_CARRIAGE_RETURN_def)
  then have n100: "enter_presses ?keys < 100"
    by simp
  have f: "fresh ?e"
    by (simp add: fresh_def list_all_iff)
  let ?n = "notepad_state (fst (efi_main ?w (typed (of_char CHR ''n'') # ?keys)))"
  let ?d = "fst (fst (editor_loop (?e, ?w) ?keys))"
  from typing_fills_lines [OF k l n100, of ?w ?e] f
  have "holds_typed ?n ?keys" and "holds_typed ?d ?keys"
    by blast+
  then have "lines ?n = 1 + 1" and "map (\<lambda>i. wstr (buffer ?n i)) [0..<lines ?n] = [L ''a'', L ''b'']"
    and "lines ?d = 1 + 1" and "map (\<lambda>i. wstr (buffer ?d i)) [0..<lines ?d] = [L ''a'', L ''b'']"
    unfolding holds_typed_def t n by blast+
  then have "lines ?n = 2" and "map (\<lambda>i. wstr (buffer ?n i)) [0..<2] = [L ''a'', L ''b'']"
    and "lines ?d = 2" and "map (\<lambda>i. wstr (buffer ?d i)) [0..<2] = [L ''a'', L ''b'']"
    unfolding one_add_one by (simp_all only:)
  then show ?thesis
    by blast
qed

section \<open>The notepad across two visits\<close>

text \<open>
  The keys of the scenario: \<^verbatim>\<open>n\<close> launches the notepad, \<^verbatim>\<open>hi\<close>, Enter and \<^verbatim>\<open>bye\<close> are typed, F2
  saves, Escape returns to the menu, and \<^verbatim>\<open>n\<close> launches the notepad again.
\<close>

definition scenario :: "EFI_INPUT_KEY list" where
  "scenario =
     [typed (of_char CHR ''n''),
      typed (of_char CHR ''h''), typed (of_char CHR ''i''), typed CHAR_CARRIAGE_RETURN,
      typed (of_char CHR ''b''), typed (of_char CHR ''y''), typed (of_char CHR ''e''),
      pressed SCAN_F2, pressed SCAN_ESC,
      typed (of_char CHR ''n'')]"

lemma notepad_loop_typing_prefix:
  assumes "list_all typing_key keys"
  shows "\<exists>w1. notepad_loop w (keys @ rest) = notepad_loop w1 rest
              \<and> notepad_state w1 = foldl (\<lambda>e key. text_key (UnicodeChar key) e) (notepad_state w) keys"
  using assms
proof (induction keys arbitrary: w)
  case Nil
  show ?case by auto
next
  case (Cons key keys)
  then have k: "typing_key key" and ks: "list_all typing_key keys"
    by simp_all
  from k have "ScanCode key \<noteq> SCAN_ESC" "ScanCode key \<noteq> SCAN_F2"
    by (simp_all add: typing_key_def scan_defs)
  then have "notepad_loop w ((key # keys) @ rest) =
        notepad_loop (w\<lparr>con := notepad_show (notepad_state w) (con w),
                       notepad_state := text_key (UnicodeChar key) (notepad_state w)\<rparr>) (keys @ rest)"
    by (simp add: notepad_key_def)
  with Cons.IH [OF ks, of "w\<lparr>con := notepad_show (notepad_state w) (con w),
                       notepad_state := text_key (UnicodeChar key) (notepad_state w)\<rparr>"]
  show ?case by auto
qed

lemma notepad_loop_save_exit:
  "\<exists>w'. notepad_loop w (pressed SCAN_F2 # pressed SCAN_ESC # rest) = (w', Some rest)
        \<and> notepad_state w' = notepad_state w"
  by (simp add: notepad_key_def pressed_def scan_defs split: prod.splits)

lemma notepad_show_two_lines:
  assumes "lines e = 2" "wstr (buffer e 0) = s0" "wstr (buffer e 1) = s1"
    "cursor_line e = 0" "cursor_col e = 0"
  shows "notepad_show e c =
           c @ [SetCursorPosition 12 4, OutputString (replicate 54 (of_char CHR '' '')),
                SetCursorPosition 12 4, OutputString s0,
                SetCursorPosition 12 5, OutputString (replicate 54 (of_char CHR '' '')),
                SetCursorPosition 12 5, OutputString s1,
                SetCursorPosition 12 4]"
proof -
  have "[0..<min 16 (lines e)] = [0, 1]"
    using assms(1) by (simp add: upt_rec)
  with assms show ?thesis
    by (simp add: notepad_show_def)
qed

lemma menu_key_notepad_visit:
  assumes "list_all typing_key keys"
  shows "\<exists>w'. menu_key (typed (of_char CHR ''n'')) w (keys @ pressed SCAN_F2 # pressed SCAN_ESC # rest)
               = (w', Some rest, True)
             \<and> notepad_state w'
               = foldl (\<lambda>e key. text_key (UnicodeChar key) e)
                   ((notepad_state w)\<lparr>cursor_line := 0, cursor_col := 0\<rparr>) keys"
proof -
  define start where "start = w
      \<lparr>con := output_string (L ''Type text. F2=Save, ESC=Exit'')
                   (set_cursor 12 20
                     (draw_window 10 3 60 18 (Some (L '' Notepad ''))
                       (draw_topbar (time (fw w)) (clear_screen (con w))))),
        notepad_state := (notepad_state w)\<lparr>cursor_line := 0, cursor_col := 0\<rparr>\<rparr>"
  have st: "notepad_state start = (notepad_state w)\<lparr>cursor_line := 0, cursor_col := 0\<rparr>"
    by (simp add: start_def)
  have app: "app_notepad w ks = notepad_loop start ks" for ks
    by (simp add: app_notepad_def start_def)
  from notepad_loop_typing_prefix [OF assms, of start "pressed SCAN_F2 # pressed SCAN_ESC # rest"]
  obtain w1 where w1: "notepad_loop start (keys @ pressed SCAN_F2 # pressed SCAN_ESC # rest)
        = notepad_loop w1 (pressed SCAN_F2 # pressed SCAN_ESC # rest)"
    and s1: "notepad_state w1 = foldl (\<lambda>e key. text_key (UnicodeChar key) e) (notepad_state start) keys"
    by blast
  from notepad_loop_save_exit [of w1 rest]
  obtain w2 where w2: "notepad_loop w1 (pressed SCAN_F2 # pressed SCAN_ESC # rest) = (w2, Some rest)"
    and s2: "notepad_state w2 = notepad_state w1"
    by blast
  have "app_notepad w (keys @ pressed SCAN_F2 # pressed SCAN_ESC # rest) = (w2, Some rest)"
    unfolding app w1 w2 ..
  then have "menu_key (typed (of_char CHR ''n'')) w (keys @ pressed SCAN_F2 # pressed SCAN_ESC # rest)
               = (w2, Some rest, True)"
    unfolding menu_key_def by (simp add: typed_def scan_defs)
  with s1 s2 st show ?thesis
    by simp
qed

lemma main_loop_notepad_waiting:
  "snd (main_loop w [typed (of_char CHR ''n'')]) = False
   \<and> notepad_state (fst (main_loop w [typed (of_char CHR ''n'')]))
       = (notepad_state w)\<lparr>cursor_line := 0, cursor_col := 0\<rparr>
   \<and> (\<exists>c. con (fst (main_loop w [typed (of_char CHR ''n'')]))
            = notepad_show ((notepad_state w)\<lparr>cursor_line := 0, cursor_col := 0\<rparr>) c)"
proof -
  have m: "main_loop w [typed (of_char CHR ''n'')] = (fst (app_notepad (draw_menu w) []), False)"
    by (rule main_loop_notepad_typing) simp
  have "\<exists>c. con (fst (app_notepad (draw_menu w) []))
            = notepad_show ((notepad_state w)\<lparr>cursor_line := 0, cursor_col := 0\<rparr>) c"
    unfolding app_notepad_def draw_menu_def by (simp, rule exI, rule refl)
  moreover have "notepad_state (fst (app_notepad (draw_menu w) []))
       = (notepad_state w)\<lparr>cursor_line := 0, cursor_col := 0\<rparr>"
    by (simp add: app_notepad_def draw_menu_def)
  ultimately show ?thesis
    unfolding m by simp
qed

text \<open>
  C9. The notepad's buffer is global and outlives a visit. Run from the start of the
  program, on any machine (the save may succeed or fail) and from any state at entry, the
  scenario ends in the notepad, waiting for a key, with a buffer of exactly two lines,
  \<^verbatim>\<open>"hi"\<close> and \<^verbatim>\<open>"bye"\<close>; the last calls to the console are the display of these two lines
  in rows 4 and 5 of the screen, followed by the placing of the cursor.
\<close>

theorem notepad_buffer_persists:
  "snd (efi_main w scenario) = False
   \<and> lines (notepad_state (fst (efi_main w scenario))) = 2
   \<and> map (\<lambda>i. wstr (buffer (notepad_state (fst (efi_main w scenario))) i)) [0..<2]
       = [L ''hi'', L ''bye'']
   \<and> suffix [SetCursorPosition 12 4, OutputString (replicate 54 (of_char CHR '' '')),
              SetCursorPosition 12 4, OutputString (L ''hi''),
              SetCursorPosition 12 5, OutputString (replicate 54 (of_char CHR '' '')),
              SetCursorPosition 12 5, OutputString (L ''bye''),
              SetCursorPosition 12 4]
        (con (fst (efi_main w scenario)))"
proof -
  define typing where "typing =
     [typed (of_char CHR ''h''), typed (of_char CHR ''i''), typed CHAR_CARRIAGE_RETURN,
      typed (of_char CHR ''b''), typed (of_char CHR ''y''), typed (of_char CHR ''e'')]"
  define again where "again = [typed (of_char CHR ''n'')]"
  define w0 where "w0 = w\<lparr>notepad_state := (notepad_state w)
                \<lparr>buffer := fold (\<lambda>i b. poke b i 0 0) [0..<MAX_LINES] (buffer (notepad_state w)),
                 lines := 1\<rparr>\<rparr>"
  define e0 where "e0 = (notepad_state (draw_menu w0))\<lparr>cursor_line := 0, cursor_col := 0\<rparr>"
  define e1 where "e1 = foldl (\<lambda>e key. text_key (UnicodeChar key) e) e0 typing"
  have sc: "scenario = typed (of_char CHR ''n'') # (typing @ pressed SCAN_F2 # pressed SCAN_ESC # again)"
    by (simp add: scenario_def typing_def again_def)
  have k: "list_all typing_key typing"
    by (simp add: typing_def typing_key_def typed_def CHAR_CARRIAGE_RETURN_def)
  have t: "typed_lines [] typing = [L ''hi'', L ''bye'']"
    by (simp add: typing_def typed_def CHAR_CARRIAGE_RETURN_def L_def)
  have l: "\<forall>l\<in>set (typed_lines [] typing). length l \<le> 255"
    unfolding t by (simp add: L_def)
  have n: "enter_presses typing = 1"
    by (simp add: typing_def enter_presses_def typed_def CHAR_CARRIAGE_RETURN_def)
  then have n100: "enter_presses typing < 100"
    by simp
  have f: "fresh e0"
    by (simp add: e0_def w0_def draw_menu_def fresh_def list_all_iff fold_poke_zero)
  have "holds_typed e1 typing"
    unfolding e1_def by (rule fresh_typing [OF f k l n100])
  then have "lines e1 = 1 + 1" and "map (\<lambda>i. wstr (buffer e1 i)) [0..<lines e1] = [L ''hi'', L ''bye'']"
    unfolding holds_typed_def t n by blast+
  then have l2: "lines e1 = 2" and m: "map (\<lambda>i. wstr (buffer e1 i)) [0..<2] = [L ''hi'', L ''bye'']"
    unfolding one_add_one by (simp_all only:)
  have u: "[0..<2] = [0, Suc 0]"
    by (simp add: upt_rec)
  from m [unfolded u] have r0: "wstr (buffer e1 0) = L ''hi''" and r1: "wstr (buffer e1 (Suc 0)) = L ''bye''"
    by simp_all
  define e3 where "e3 = e1\<lparr>cursor_line := 0, cursor_col := 0\<rparr>"
  from menu_key_notepad_visit [OF k, of "draw_menu w0" again]
  obtain w2 where first: "menu_key (typed (of_char CHR ''n'')) (draw_menu w0)
        (typing @ pressed SCAN_F2 # pressed SCAN_ESC # again) = (w2, Some again, True)"
    and s2: "notepad_state w2 = e1"
    unfolding e1_def e0_def by blast
  from main_loop_notepad_waiting [of w2]
  obtain c where s3: "snd (main_loop w2 again) = False"
    and n3: "notepad_state (fst (main_loop w2 again)) = e3"
    and c3: "con (fst (main_loop w2 again)) = notepad_show e3 c"
    unfolding again_def e3_def s2 by blast
  have "main_loop w0 scenario = main_loop w2 again"
    unfolding sc main_loop.simps first by simp
  then have res: "efi_main w scenario = (fst (main_loop w2 again), False)"
    unfolding efi_main_def w0_def [symmetric] using s3 by (simp add: case_prod_unfold)
  have show3: "notepad_show e3 c =
           c @ [SetCursorPosition 12 4, OutputString (replicate 54 (of_char CHR '' '')),
                SetCursorPosition 12 4, OutputString (L ''hi''),
                SetCursorPosition 12 5, OutputString (replicate 54 (of_char CHR '' '')),
                SetCursorPosition 12 5, OutputString (L ''bye''),
                SetCursorPosition 12 4]"
    by (rule notepad_show_two_lines) (simp_all add: e3_def l2 r0 r1)
  have a: "snd (efi_main w scenario) = False"
    unfolding res by simp
  have b: "lines (notepad_state (fst (efi_main w scenario))) = 2"
    unfolding res fst_conv n3 by (simp add: e3_def l2)
  have "buffer (notepad_state (fst (efi_main w scenario))) = buffer e1"
    unfolding res fst_conv n3 by (simp add: e3_def)
  then have c: "map (\<lambda>i. wstr (buffer (notepad_state (fst (efi_main w scenario))) i)) [0..<2]
       = [L ''hi'', L ''bye'']"
    using m by (simp only:)
  have "con (fst (efi_main w scenario)) = notepad_show e3 c"
    unfolding res fst_conv c3 ..
  then have d: "suffix [SetCursorPosition 12 4, OutputString (replicate 54 (of_char CHR '' '')),
              SetCursorPosition 12 4, OutputString (L ''hi''),
              SetCursorPosition 12 5, OutputString (replicate 54 (of_char CHR '' '')),
              SetCursorPosition 12 5, OutputString (L ''bye''),
              SetCursorPosition 12 4]
        (con (fst (efi_main w scenario)))"
    unfolding show3 by (simp only: suffix_appendI suffix_order.refl)
  from a b c d show ?thesis
    by blast
qed

end
